theory Spec2Isabelle
  imports Main "HOL-Library.Word"
begin

unbundle bit_operations_syntax

section \<open>Values and collaborators\<close>

type_synonym byte = "8 word"
type_synonym bytes = "byte list"

text \<open>
  The exceptions a handler can end with. \<open>SyntaxError\<close> is what \<open>JSON.parse\<close> throws,
  \<open>TypeError\<close> what a property read of \<open>null\<close> and \<open>Buffer.from\<close> throw, \<open>NaclError\<close>
  the \<open>Error\<close> tweetnacl throws on arguments of the wrong size, \<open>PrefixError\<close> the
  \<open>Error\<close> of the decoder on a length prefix longer than it reads, \<open>RangeError\<close> what the
  allocation of a buffer throws. \<open>ProtocolError\<close> and \<open>FramingError\<close> are the error kinds
  of the specification; nothing in the program builds them.
\<close>

datatype error =
    SyntaxError | TypeError | NaclError | PrefixError | RangeError
  | ProtocolError | FramingError

text \<open>How the decoder of length-prefixed-stream can fail on a length prefix.\<close>

datatype decoder_failure = PrefixTooLong | CannotAllocate

fun failure_error :: "decoder_failure \<Rightarrow> error" where
  "failure_error PrefixTooLong = PrefixError"
| "failure_error CannotAllocate = RangeError"

text \<open>A JavaScript value as \<open>JSON.parse\<close> builds it, and \<open>undefined\<close> for an absent property.\<close>

datatype jsval =
    JUndefined
  | JNull
  | JBool bool
  | JNum string
  | JStr string
  | JArr "jsval list"
  | JObj "(string \<times> jsval) list"

text \<open>A call into a library either throws or returns.\<close>

datatype 'a call = Throws | Returns 'a

text \<open>
  The libraries the program calls (tweetnacl, \<open>JSON\<close>, \<open>Buffer\<close>, length-prefixed-stream)
  are not part of the repository; the program is modelled over any implementation of them.
  \<^item> \<open>nacl_box m n pk sk\<close>: \<open>nacl.box\<close>, throwing on keys or nonces of the wrong size;
  \<^item> \<open>nacl_box_open c n pk sk\<close>: \<open>nacl.box.open\<close>, returning \<open>None\<close> (\<open>null\<close>) when
    authentication fails;
  \<^item> \<open>nacl_randomBytes k n\<close>: the \<open>n\<close> bytes returned by the \<open>k\<close>-th call of
    \<open>nacl.randomBytes\<close>;
  \<^item> \<open>JSON_parse\<close>: \<open>None\<close> when \<open>JSON.parse\<close> throws its \<open>SyntaxError\<close>;
  \<^item> \<open>base64_decode\<close>, \<open>base64_encode\<close>: \<open>Buffer.from (s, 'base64')\<close> on a string and
    \<open>buf.toString ('base64')\<close>;
  \<^item> \<open>buffer_from_object\<close>: \<open>Buffer.from\<close> on an array or object, \<open>None\<close> when it throws;
  \<^item> \<open>utf8_decode\<close>, \<open>utf8_encode\<close>: \<open>buf.toString ()\<close> and \<open>Buffer.from (s)\<close>;
  \<^item> \<open>lp_encode\<close>: the bytes the length-prefixing encoder writes for one frame;
  \<^item> \<open>lp_decode buffered chunk\<close>: the frames the decoder yields on a chunk, and then
    either the bytes it keeps for the next one or the failure that stopped it.
\<close>

record platform =
  nacl_box :: "bytes \<Rightarrow> bytes \<Rightarrow> bytes \<Rightarrow> bytes \<Rightarrow> bytes call"
  nacl_box_open :: "bytes \<Rightarrow> bytes \<Rightarrow> bytes \<Rightarrow> bytes \<Rightarrow> bytes option call"
  nacl_randomBytes :: "nat \<Rightarrow> nat \<Rightarrow> bytes"
  JSON_parse :: "string \<Rightarrow> jsval option"
  JSON_stringify :: "jsval \<Rightarrow> string"
  base64_decode :: "string \<Rightarrow> bytes"
  base64_encode :: "bytes \<Rightarrow> string"
  buffer_from_object :: "jsval \<Rightarrow> bytes option"
  utf8_decode :: "bytes \<Rightarrow> string"
  utf8_encode :: "string \<Rightarrow> bytes"
  lp_encode :: "bytes \<Rightarrow> bytes"
  lp_decode :: "bytes \<Rightarrow> bytes \<Rightarrow> bytes list \<times> (decoder_failure + bytes)"

text \<open>
  Modelled from the spec: \<open>nacl.box.nonceLength\<close>, a constant of tweetnacl, which is
  not in the repository; the specification fixes the nonce at 24 bytes.
\<close>

definition nonceLength :: nat where
  "nonceLength = 24"

text \<open>
  Reading property \<open>k\<close> of a parsed value: a \<open>TypeError\<close> on \<open>null\<close> and \<open>undefined\<close>, the
  member of an object, \<open>undefined\<close> where there is none (no prototype defines \<open>data\<close> or
  \<open>nonce\<close>).
\<close>

fun get_prop :: "jsval \<Rightarrow> string \<Rightarrow> error + jsval" where
  "get_prop JUndefined k = Inl TypeError"
| "get_prop JNull k = Inl TypeError"
| "get_prop (JObj kvs) k = (case map_of kvs k of None \<Rightarrow> Inr JUndefined | Some v \<Rightarrow> Inr v)"
| "get_prop v k = Inr JUndefined"

text \<open>\<open>Buffer.from (v, 'base64')\<close>.\<close>

fun Buffer_from_base64 :: "platform \<Rightarrow> jsval \<Rightarrow> error + bytes" where
  "Buffer_from_base64 p (JStr s) = Inr (base64_decode p s)"
| "Buffer_from_base64 p (JArr xs) =
     (case buffer_from_object p (JArr xs) of None \<Rightarrow> Inl TypeError | Some b \<Rightarrow> Inr b)"
| "Buffer_from_base64 p (JObj kvs) =
     (case buffer_from_object p (JObj kvs) of None \<Rightarrow> Inl TypeError | Some b \<Rightarrow> Inr b)"
| "Buffer_from_base64 p v = Inl TypeError"

section \<open>CryptoComm: the receive handler and send\<close>

record comm =
  comm_pk :: bytes
  theirPk :: bytes
  ourSk :: bytes

text \<open>
  The argument of a \<open>message\<close> event: \<open>null\<close>, the \<open>Uint8Array\<close> that \<open>nacl.box.open\<close>
  returns, or the \<open>Buffer\<close> that \<open>Buffer.from\<close> copies it into.
\<close>

datatype payload = Null | Uint8Array bytes | Buffer bytes

text \<open>
  What the exported objects emit to their owner: \<open>client\<close> of a TrannyServer, \<open>message\<close> and
  \<open>disconnected\<close> of a CryptoComm.
\<close>

datatype event = Client comm | Message comm payload | Disconnected comm

text \<open>Lines 87 to 91 of \<open>_onData\<close>: the ciphertext and the nonce of a frame.\<close>

definition envelope_of :: "platform \<Rightarrow> bytes \<Rightarrow> error + (bytes \<times> bytes)" where
  "envelope_of p data =
     (case JSON_parse p (utf8_decode p data) of
        None \<Rightarrow> Inl SyntaxError
      | Some decodedData \<Rightarrow>
          (case get_prop decodedData ''data'' of
             Inl e \<Rightarrow> Inl e
           | Inr d \<Rightarrow>
               (case Buffer_from_base64 p d of
                  Inl e \<Rightarrow> Inl e
                | Inr encryptedData \<Rightarrow>
                    (case get_prop decodedData ''nonce'' of
                       Inl e \<Rightarrow> Inl e
                     | Inr n \<Rightarrow>
                         (case Buffer_from_base64 p n of
                            Inl e \<Rightarrow> Inl e
                          | Inr nonce \<Rightarrow> Inr (encryptedData, nonce))))))"

text \<open>\<open>CryptoComm._onData\<close> (lines 85 to 102): the events it emits, or the exception.\<close>

definition onData :: "platform \<Rightarrow> comm \<Rightarrow> bytes \<Rightarrow> error + event list" where
  "onData p c data =
     (case envelope_of p data of
        Inl e \<Rightarrow> Inl e
      | Inr (encryptedData, nonce) \<Rightarrow>
          (case nacl_box_open p encryptedData nonce (theirPk c) (ourSk c) of
             Throws \<Rightarrow> Inl NaclError
           | Returns None \<Rightarrow> Inr []
           | Returns (Some decryptedData) \<Rightarrow> Inr [Message c (Buffer decryptedData)]))"

text \<open>
  The earlier version of \<open>_onData\<close> in the same file (lines 251 to 264): no test of the
  result of \<open>nacl.box.open\<close>, which is emitted as it is.
\<close>

definition onData_v2 :: "platform \<Rightarrow> comm \<Rightarrow> bytes \<Rightarrow> error + event list" where
  "onData_v2 p c data =
     (case envelope_of p data of
        Inl e \<Rightarrow> Inl e
      | Inr (encryptedData, nonce) \<Rightarrow>
          (case nacl_box_open p encryptedData nonce (theirPk c) (ourSk c) of
             Throws \<Rightarrow> Inl NaclError
           | Returns None \<Rightarrow> Inr [Message c Null]
           | Returns (Some decryptedData) \<Rightarrow> Inr [Message c (Uint8Array decryptedData)]))"

section \<open>NetConn: frames over a socket\<close>

text \<open>
  The listeners of the \<open>data\<close> event of a NetConn: the handler TrannyServer registers with
  \<open>once\<close> (lines 140 to 145, holding \<open>keyPair.sk\<close>) and the one \<open>CryptoComm._listen\<close> registers
  (lines 75 to 77). The listeners of \<open>disconnected\<close> are those of \<open>CryptoComm._listen\<close> (lines 79
  to 81), one for each CryptoComm.
\<close>

datatype data_listener = FirstData bytes | CommData comm

text \<open>
  A NetConn: whether \<open>destroy\<close> was called on its socket, the bytes its decoder holds,
  whether the decoder has stopped for good, the frames written to its encoder (oldest
  first), and its listeners in the order of their registration, those registered with
  \<open>once\<close> marked \<open>True\<close>. The decoder stops for good when an exception leaves its
  transform: one it throws itself, or one a listener of \<open>data\<close> throws, which nothing
  between the listener and the decoder catches.
\<close>

record netconn =
  socket_destroyed :: bool
  decoder_buffer :: bytes
  decoder_stalled :: bool
  encoder_written :: "bytes list"
  data_listeners :: "(bool \<times> data_listener) list"
  disconnected_listeners :: "comm list"

text \<open>
  What running a handler gives: the events emitted, the exception that ended it if there
  is one, and the state it leaves.
\<close>

type_synonym 's result = "event list \<times> error option \<times> 's"

text \<open>Sequencing: an exception skips what would have followed.\<close>

definition then_do :: "'s result \<Rightarrow> ('s \<Rightarrow> 's result) \<Rightarrow> 's result" where
  "then_do r k =
     (case r of
        (evs, Some e, s) \<Rightarrow> (evs, Some e, s)
      | (evs, None, s) \<Rightarrow> (case k s of (evs', x, s') \<Rightarrow> (evs @ evs', x, s')))"

definition NetConn_new :: netconn where
  "NetConn_new =
     \<lparr>socket_destroyed = False, decoder_buffer = [], decoder_stalled = False,
      encoder_written = [],
      data_listeners = [], disconnected_listeners = []\<rparr>"

text \<open>\<open>NetConn.send\<close> (lines 43 to 46).\<close>

definition NetConn_send :: "bytes \<Rightarrow> netconn \<Rightarrow> netconn" where
  "NetConn_send data nc = nc\<lparr>encoder_written := encoder_written nc @ [data]\<rparr>"

text \<open>\<open>NetConn.destroy\<close> (lines 49 to 51): \<open>socket.destroy ()\<close>.\<close>

definition NetConn_destroy :: "netconn \<Rightarrow> netconn" where
  "NetConn_destroy nc = nc\<lparr>socket_destroyed := True\<rparr>"

text \<open>The bytes the encoder has produced for the socket.\<close>

definition wire :: "platform \<Rightarrow> netconn \<Rightarrow> bytes" where
  "wire p nc = concat (map (lp_encode p) (encoder_written nc))"

text \<open>The constructor of CryptoComm (lines 56 to 71) and its \<open>_listen\<close> (lines 74 to 82).\<close>

definition CryptoComm_listen :: "comm \<Rightarrow> netconn \<Rightarrow> netconn" where
  "CryptoComm_listen c nc =
     nc\<lparr>data_listeners := data_listeners nc @ [(False, CommData c)],
        disconnected_listeners := disconnected_listeners nc @ [c]\<rparr>"

definition CryptoComm_new :: "bytes \<Rightarrow> bytes \<Rightarrow> netconn \<Rightarrow> comm \<times> netconn" where
  "CryptoComm_new their_pk our_sk nc =
     (let c = \<lparr>comm_pk = their_pk, theirPk = their_pk, ourSk = our_sk\<rparr>
      in (c, CryptoComm_listen c nc))"

fun call_data_listener :: "platform \<Rightarrow> data_listener \<Rightarrow> bytes \<Rightarrow> netconn \<Rightarrow> netconn result" where
  "call_data_listener p (FirstData our_sk) data nc =
     (case CryptoComm_new data our_sk nc of (c, nc') \<Rightarrow> ([Client c], None, nc'))"
| "call_data_listener p (CommData c) data nc =
     (case onData p c data of
        Inl e \<Rightarrow> ([], Some e, nc\<lparr>decoder_stalled := True\<rparr>)
      | Inr evs \<Rightarrow> (evs, None, nc))"

text \<open>
  \<open>emit ('data', data)\<close> of Node's EventEmitter: the listeners registered when the event is
  emitted are called in order, one registered with \<open>once\<close> being removed before its call;
  a listener added by a handler is not called for the event being emitted.
\<close>

fun call_each :: "platform \<Rightarrow> (bool \<times> data_listener) list \<Rightarrow> bytes \<Rightarrow> netconn \<Rightarrow> netconn result" where
  "call_each p [] data nc = ([], None, nc)"
| "call_each p ((once, l) # ls) data nc =
     then_do
       (call_data_listener p l data
          (if once then nc\<lparr>data_listeners := remove1 (once, l) (data_listeners nc)\<rparr> else nc))
       (call_each p ls data)"

definition emit_data :: "platform \<Rightarrow> bytes \<Rightarrow> netconn \<Rightarrow> netconn result" where
  "emit_data p data nc = call_each p (data_listeners nc) data nc"

text \<open>\<open>emit ('disconnected')\<close>: each CryptoComm listening emits its own \<open>disconnected\<close>.\<close>

definition emit_disconnected :: "netconn \<Rightarrow> netconn result" where
  "emit_disconnected nc = (map Disconnected (disconnected_listeners nc), None, nc)"

text \<open>The frames the decoder yields, each emitted as \<open>data\<close> (lines 32 to 35).\<close>

fun emit_frames :: "platform \<Rightarrow> bytes list \<Rightarrow> netconn \<Rightarrow> netconn result" where
  "emit_frames p [] nc = ([], None, nc)"
| "emit_frames p (f # fs) nc = then_do (emit_data p f nc) (emit_frames p fs)"

text \<open>
  A chunk read from the socket, piped to the decoder (line 23). A decoder that has stopped
  only queues it. Otherwise the frames it yields are emitted, and a failure of the decoder
  is an exception like any other: the NetConn listens for no error of the decoder, and
  nothing catches what it throws.
\<close>

definition socket_data :: "platform \<Rightarrow> bytes \<Rightarrow> netconn \<Rightarrow> netconn result" where
  "socket_data p chunk nc =
     (if decoder_stalled nc then ([], None, nc\<lparr>decoder_buffer := decoder_buffer nc @ chunk\<rparr>)
      else (case lp_decode p (decoder_buffer nc) chunk of
              (frames, Inr rest) \<Rightarrow> emit_frames p frames (nc\<lparr>decoder_buffer := rest\<rparr>)
            | (frames, Inl failure) \<Rightarrow>
                then_do (emit_frames p frames nc)
                  (\<lambda>nc'. ([], Some (failure_error failure), nc'\<lparr>decoder_stalled := True\<rparr>))))"

text \<open>The \<open>close\<close> event of the socket (lines 37 to 39).\<close>

definition socket_close :: "netconn \<Rightarrow> netconn result" where
  "socket_close nc = emit_disconnected nc"

section \<open>Sending, the server and the client\<close>

text \<open>
  \<open>CryptoComm.send\<close> (lines 105 to 120). \<open>k\<close> counts the calls of \<open>nacl.randomBytes\<close> made
  so far; the result is the exception if there is one, the new count and the NetConn.
\<close>

definition CryptoComm_send ::
  "platform \<Rightarrow> comm \<Rightarrow> bytes \<Rightarrow> nat \<Rightarrow> netconn \<Rightarrow> error option \<times> nat \<times> netconn" where
  "CryptoComm_send p c data k nc =
     (let nonce = nacl_randomBytes p k nonceLength in
      case nacl_box p data nonce (theirPk c) (ourSk c) of
        Throws \<Rightarrow> (Some NaclError, Suc k, nc)
      | Returns encryptedData \<Rightarrow>
          (let encodedData =
             utf8_encode p (JSON_stringify p (JObj
               [(''data'', JStr (base64_encode p encryptedData)),
                (''nonce'', JStr (base64_encode p nonce))]))
           in (None, Suc k, NetConn_send encodedData nc)))"

text \<open>\<open>CryptoComm.destroy\<close> (lines 123 to 125).\<close>

definition CryptoComm_destroy :: "netconn \<Rightarrow> netconn" where
  "CryptoComm_destroy nc = NetConn_destroy nc"

record keyPair =
  pk :: bytes
  sk :: bytes

text \<open>
  The callback of \<open>net.createServer\<close> in TrannyServer (lines 135 to 146): the NetConn of an
  accepted socket, waiting once for \<open>data\<close>.
\<close>

definition TrannyServer_connection :: "keyPair \<Rightarrow> netconn" where
  "TrannyServer_connection kp = NetConn_new\<lparr>data_listeners := [(True, FirstData (sk kp))]\<rparr>"

text \<open>The constructor of TrannyClient (lines 155 to 167).\<close>

definition TrannyClient_new :: "keyPair \<Rightarrow> bytes \<Rightarrow> comm \<times> netconn" where
  "TrannyClient_new kp their_pk =
     (let netConn = NetConn_new;
          netConn = NetConn_send (pk kp) netConn
      in CryptoComm_new their_pk (sk kp) netConn)"

section \<open>A connection over time\<close>

text \<open>
  What happens to a connection: the socket delivers a chunk or raises \<open>close\<close>, the one
  ending event the NetConn listens to; the owner calls \<open>send\<close> or \<open>destroy\<close> on the
  CryptoComm. The program catches no exception: the first one thrown ends the run, with
  the events emitted until then.
\<close>

datatype input = SocketData bytes | SocketClose | Send comm bytes | Destroy

record conn =
  net :: netconn
  draws :: nat

definition lift_net :: "conn \<Rightarrow> netconn result \<Rightarrow> conn result" where
  "lift_net s r = (case r of (evs, x, nc) \<Rightarrow> (evs, x, s\<lparr>net := nc\<rparr>))"

fun step :: "platform \<Rightarrow> input \<Rightarrow> conn \<Rightarrow> conn result" where
  "step p (SocketData chunk) s = lift_net s (socket_data p chunk (net s))"
| "step p SocketClose s = lift_net s (socket_close (net s))"
| "step p (Send c data) s =
     (case CryptoComm_send p c data (draws s) (net s) of
        (x, k, nc) \<Rightarrow> ([], x, \<lparr>net = nc, draws = k\<rparr>))"
| "step p Destroy s = ([], None, s\<lparr>net := CryptoComm_destroy (net s)\<rparr>)"

fun run :: "platform \<Rightarrow> input list \<Rightarrow> conn \<Rightarrow> conn result" where
  "run p [] s = ([], None, s)"
| "run p (i # is) s = then_do (step p i s) (run p is)"

text \<open>
  A process holds the connections of its server and clients, here by their position. An
  exception nothing catches ends the process, and with it every connection.
\<close>

fun process_step :: "platform \<Rightarrow> nat \<times> input \<Rightarrow> conn list \<Rightarrow> conn list result" where
  "process_step p (i, x) cs =
     (if i < length cs
      then (case step p x (cs ! i) of (evs, e, s) \<Rightarrow> (evs, e, cs[i := s]))
      else ([], None, cs))"

fun process_run :: "platform \<Rightarrow> (nat \<times> input) list \<Rightarrow> conn list \<Rightarrow> conn list result" where
  "process_run p [] cs = ([], None, cs)"
| "process_run p (x # xs) cs = then_do (process_step p x cs) (process_run p xs)"

section \<open>A reference implementation of the collaborators\<close>

text \<open>
  One implementation of the collaborators, on which the theorems below are run at
  concrete inputs. Base64 and the length prefix are the real encodings, and the decoder
  fails where that of length-prefixed-stream does; the JSON reader reads objects whose
  members are strings free of quotes and backslashes, which is what \<open>send\<close> writes, and
  rejects any other text; \<open>Buffer.from\<close> is given strings only, and refuses arrays and
  objects. The box follows the words of the specification, a Diffie-Hellman key agreement
  combined with an authenticated symmetric encryption, with the size checks of tweetnacl.
\<close>

definition base64_alphabet :: string where
  "base64_alphabet = ''ABCDEFGHIJKLMNOPQRSTUVWXYZabcdefghijklmnopqrstuvwxyz0123456789+/''"

definition sextet_char :: "nat \<Rightarrow> char" where
  "sextet_char n = base64_alphabet ! (n mod 64)"

fun ref_base64_encode :: "bytes \<Rightarrow> string" where
  "ref_base64_encode [] = []"
| "ref_base64_encode [a] =
     (let n = unat a * 65536
      in [sextet_char (n div 262144), sextet_char (n div 4096), CHR ''='', CHR ''=''])"
| "ref_base64_encode [a, b] =
     (let n = unat a * 65536 + unat b * 256
      in [sextet_char (n div 262144), sextet_char (n div 4096), sextet_char (n div 64),
          CHR ''=''])"
| "ref_base64_encode (a # b # c # rest) =
     (let n = unat a * 65536 + unat b * 256 + unat c
      in [sextet_char (n div 262144), sextet_char (n div 4096), sextet_char (n div 64),
          sextet_char n] @ ref_base64_encode rest)"

definition char_sextet :: "char \<Rightarrow> nat option" where
  "char_sextet c =
     (let i = length (takeWhile (\<lambda>x. x \<noteq> c) base64_alphabet)
      in if i < 64 then Some i else None)"

fun sextets_bytes :: "nat list \<Rightarrow> bytes" where
  "sextets_bytes (a # b # c # d # rest) =
     (let n = a * 262144 + b * 4096 + c * 64 + d
      in [of_nat (n div 65536), of_nat (n div 256), of_nat n] @ sextets_bytes rest)"
| "sextets_bytes [a, b, c] =
     (let n = a * 262144 + b * 4096 + c * 64 in [of_nat (n div 65536), of_nat (n div 256)])"
| "sextets_bytes [a, b] = [of_nat ((a * 262144 + b * 4096) div 65536)]"
| "sextets_bytes _ = []"

definition ref_base64_decode :: "string \<Rightarrow> bytes" where
  "ref_base64_decode s = sextets_bytes (List.map_filter char_sextet s)"

text \<open>Text of one byte for each character.\<close>

definition ref_utf8_encode :: "string \<Rightarrow> bytes" where
  "ref_utf8_encode s = map of_char s"

definition ref_utf8_decode :: "bytes \<Rightarrow> string" where
  "ref_utf8_decode b = map (\<lambda>x. char_of (unat x)) b"

fun stringify_members :: "(string \<times> jsval) list \<Rightarrow> string" where
  "stringify_members [] = []"
| "stringify_members ((k, v) # kvs) =
     [CHR 0x22] @ k @ [CHR 0x22, CHR '':''] @
     (case v of JStr s \<Rightarrow> [CHR 0x22] @ s @ [CHR 0x22] | _ \<Rightarrow> ''null'') @
     (if kvs = [] then [] else [CHR '',''] @ stringify_members kvs)"

definition ref_JSON_stringify :: "jsval \<Rightarrow> string" where
  "ref_JSON_stringify v =
     (case v of JObj kvs \<Rightarrow> [CHR ''{''] @ stringify_members kvs @ [CHR ''}''] | _ \<Rightarrow> ''null'')"

text \<open>A quoted string at the head of a text: its content and what follows it.\<close>

fun quoted :: "string \<Rightarrow> (string \<times> string) option" where
  "quoted [] = None"
| "quoted (c # cs) =
     (if c \<noteq> CHR 0x22 \<or> CHR 0x5C \<in> set (takeWhile (\<lambda>x. x \<noteq> CHR 0x22) cs) then None
      else (case dropWhile (\<lambda>x. x \<noteq> CHR 0x22) cs of
              [] \<Rightarrow> None
            | _ # rest \<Rightarrow> Some (takeWhile (\<lambda>x. x \<noteq> CHR 0x22) cs, rest)))"

text \<open>The members of an object up to its closing brace, read in at most \<open>n\<close> rounds.\<close>

fun parse_members :: "nat \<Rightarrow> string \<Rightarrow> (string \<times> jsval) list option" where
  "parse_members 0 s = None"
| "parse_members (Suc n) s =
     (case quoted s of
        None \<Rightarrow> None
      | Some (k, s1) \<Rightarrow>
          (case s1 of
             [] \<Rightarrow> None
           | c # s2 \<Rightarrow>
               if c \<noteq> CHR '':'' then None
               else (case quoted s2 of
                       None \<Rightarrow> None
                     | Some (v, s3) \<Rightarrow>
                         if s3 = ''}'' then Some [(k, JStr v)]
                         else (case s3 of
                                 [] \<Rightarrow> None
                               | d # s4 \<Rightarrow>
                                   if d \<noteq> CHR '','' then None
                                   else (case parse_members n s4 of
                                           None \<Rightarrow> None
                                         | Some kvs \<Rightarrow> Some ((k, JStr v) # kvs))))))"

definition ref_JSON_parse :: "string \<Rightarrow> jsval option" where
  "ref_JSON_parse s =
     (if s = ''{}'' then Some (JObj [])
      else (case s of
              [] \<Rightarrow> None
            | c # cs \<Rightarrow>
                if c \<noteq> CHR ''{'' then None
                else (case parse_members (length cs) cs of
                        None \<Rightarrow> None
                      | Some kvs \<Rightarrow> Some (JObj kvs))))"

text \<open>The length prefix: a varint, seven bits to a byte, the low ones first.\<close>

function varint_encode :: "nat \<Rightarrow> bytes" where
  "varint_encode n =
     (if n < 128 then [of_nat n] else of_nat (128 + n mod 128) # varint_encode (n div 128))"
  by pat_completeness auto
termination
  by (relation "measure id") auto

declare varint_encode.simps [simp del]

fun varint_decode :: "bytes \<Rightarrow> (nat \<times> bytes) option" where
  "varint_decode [] = None"
| "varint_decode (b # bs) =
     (if unat b < 128 then Some (unat b, bs)
      else (case varint_decode bs of
              None \<Rightarrow> None
            | Some (v, rest) \<Rightarrow> Some (unat b - 128 + 128 * v, rest)))"

definition ref_lp_encode :: "bytes \<Rightarrow> bytes" where
  "ref_lp_encode frame = varint_encode (length frame) @ frame"

text \<open>
  The decoder of length-prefixed-stream keeps 100 bytes for a length prefix: it fails on a
  further byte of a prefix that has not ended by then.
\<close>

definition prefix_overlong :: "bytes \<Rightarrow> bool" where
  "prefix_overlong bs \<longleftrightarrow> 100 < length bs \<and> list_all (\<lambda>b. 128 \<le> unat b) (take 100 bs)"

text \<open>
  What Node allocates for one buffer depends on its version and on the machine; none
  gives \<open>2 ^ 47\<close> bytes, and the allocation then throws a \<open>RangeError\<close>.
\<close>

definition allocation_limit :: nat where
  "allocation_limit = 2 ^ 47"

text \<open>
  The complete frames at the head of the bytes received, in at most \<open>n\<close> rounds, and the
  bytes left. A frame of no bytes is not yielded. A frame that is whole in the bytes
  received is a slice of them; for one that is not, the decoder allocates a buffer of the
  length its prefix claims.
\<close>

fun split_frames :: "nat \<Rightarrow> bytes \<Rightarrow> bytes list \<times> (decoder_failure + bytes)" where
  "split_frames 0 bs = ([], Inr bs)"
| "split_frames (Suc n) bs =
     (if prefix_overlong bs then ([], Inl PrefixTooLong)
      else (case varint_decode bs of
              None \<Rightarrow> ([], Inr bs)
            | Some (len, rest) \<Rightarrow>
                if length rest < len
                then (if allocation_limit \<le> len then ([], Inl CannotAllocate) else ([], Inr bs))
                else (case split_frames n (drop len rest) of
                        (frames, left) \<Rightarrow>
                          ((if len = 0 then [] else [take len rest]) @ frames, left))))"

definition ref_lp_decode :: "bytes \<Rightarrow> bytes \<Rightarrow> bytes list \<times> (decoder_failure + bytes)" where
  "ref_lp_decode buffered chunk = split_frames (length (buffered @ chunk)) (buffered @ chunk)"

text \<open>
  Modelled from the spec: the key agreement. A key is 32 bytes, each one an exponent in
  the group of the residues of the prime 251: the public key of a secret key holds the
  powers of the generator 6, and the key two parties share holds the powers of the public
  bytes of the one by the secret bytes of the other.
\<close>

definition dh_power :: "nat \<Rightarrow> byte \<Rightarrow> byte" where
  "dh_power g x = of_nat (g ^ unat x mod 251)"

definition ref_public :: "bytes \<Rightarrow> bytes" where
  "ref_public secret = map (dh_power 6) secret"

definition ref_shared :: "bytes \<Rightarrow> bytes \<Rightarrow> bytes" where
  "ref_shared their_pk our_sk = map2 (\<lambda>y x. dh_power (unat y) x) their_pk our_sk"

text \<open>
  Modelled from the spec: the authenticated symmetric encryption under the shared key. The
  message is added bit by bit to a stream made of the key, the nonce and the position;
  16 bytes in front of it authenticate the key, the nonce and what was encrypted.
\<close>

definition ref_keystream :: "bytes \<Rightarrow> bytes \<Rightarrow> nat \<Rightarrow> bytes" where
  "ref_keystream key n len = map (\<lambda>j. key ! (j mod 32) + n ! (j mod 24) + of_nat j) [0..<len]"

definition ref_mac :: "bytes \<Rightarrow> bytes \<Rightarrow> bytes \<Rightarrow> bytes" where
  "ref_mac key n body =
     map (\<lambda>j. key ! j + n ! j + sum_list body + of_nat (length body)) [0..<16]"

definition ref_seal :: "bytes \<Rightarrow> bytes \<Rightarrow> bytes \<Rightarrow> bytes" where
  "ref_seal key n m =
     (let body = map2 (XOR) m (ref_keystream key n (length m)) in ref_mac key n body @ body)"

definition ref_unseal :: "bytes \<Rightarrow> bytes \<Rightarrow> bytes \<Rightarrow> bytes option" where
  "ref_unseal key n c =
     (if length c < 16 \<or> take 16 c \<noteq> ref_mac key n (drop 16 c) then None
      else Some (map2 (XOR) (drop 16 c) (ref_keystream key n (length c - 16))))"

text \<open>
  Modelled from the spec: Box and BoxOpen, with the exceptions of tweetnacl on a nonce or
  a key of the wrong size.
\<close>

definition ref_box :: "bytes \<Rightarrow> bytes \<Rightarrow> bytes \<Rightarrow> bytes \<Rightarrow> bytes call" where
  "ref_box m n their_pk our_sk =
     (if length n \<noteq> 24 \<or> length their_pk \<noteq> 32 \<or> length our_sk \<noteq> 32 then Throws
      else Returns (ref_seal (ref_shared their_pk our_sk) n m))"

definition ref_box_open :: "bytes \<Rightarrow> bytes \<Rightarrow> bytes \<Rightarrow> bytes \<Rightarrow> bytes option call" where
  "ref_box_open c n their_pk our_sk =
     (if length n \<noteq> 24 \<or> length their_pk \<noteq> 32 \<or> length our_sk \<noteq> 32 then Throws
      else Returns (ref_unseal (ref_shared their_pk our_sk) n c))"

text \<open>The bytes of the \<open>k\<close>-th draw: different for different draws.\<close>

definition ref_randomBytes :: "nat \<Rightarrow> nat \<Rightarrow> bytes" where
  "ref_randomBytes k n = map (\<lambda>i. of_nat (17 * k + 7 * i + 3)) [0..<n]"

text \<open>Modelled from the spec: the key-pair generator, on 32 secret bytes.\<close>

definition ref_keyPair :: "bytes \<Rightarrow> keyPair" where
  "ref_keyPair secret = \<lparr>pk = ref_public secret, sk = secret\<rparr>"

definition reference :: platform where
  "reference =
     \<lparr>nacl_box = ref_box, nacl_box_open = ref_box_open, nacl_randomBytes = ref_randomBytes,
      JSON_parse = ref_JSON_parse, JSON_stringify = ref_JSON_stringify,
      base64_decode = ref_base64_decode, base64_encode = ref_base64_encode,
      buffer_from_object = (\<lambda>v. None),
      utf8_decode = ref_utf8_decode, utf8_encode = ref_utf8_encode,
      lp_encode = ref_lp_encode, lp_decode = ref_lp_decode\<rparr>"
section \<open>Two parties on the reference implementation\<close>

definition alice_secret :: bytes where
  "alice_secret =
     [1, 6, 11, 16, 21, 26, 31, 36, 41, 46, 51, 56, 61, 66, 71, 76, 81, 86, 91, 96, 101,
     106, 111, 116, 121, 126, 131, 136, 141, 146, 151, 156]"

definition bob_secret :: bytes where
  "bob_secret =
     [2, 9, 16, 23, 30, 37, 44, 51, 58, 65, 72, 79, 86, 93, 100, 107, 114, 121, 128, 135,
     142, 149, 156, 163, 170, 177, 184, 191, 198, 205, 212, 219]"

definition alice :: keyPair where
  "alice = ref_keyPair alice_secret"

definition bob :: keyPair where
  "bob = ref_keyPair bob_secret"

text \<open>The channel of each party to the other.\<close>

definition alice_comm :: comm where
  "alice_comm = \<lparr>comm_pk = pk bob, theirPk = pk bob, ourSk = sk alice\<rparr>"

definition bob_comm :: comm where
  "bob_comm = \<lparr>comm_pk = pk alice, theirPk = pk alice, ourSk = sk bob\<rparr>"

text \<open>The frame that \<open>send\<close> makes of a ciphertext and its nonce.\<close>

definition ref_frame :: "bytes \<Rightarrow> bytes \<Rightarrow> bytes" where
  "ref_frame ct nonce =
     ref_utf8_encode (ref_JSON_stringify
       (JObj [(''data'', JStr (ref_base64_encode ct)),
              (''nonce'', JStr (ref_base64_encode nonce))]))"

text \<open>The first nonce drawn, a message, its box from alice to bob, and the frame sent.\<close>

definition nonce0 :: bytes where
  "nonce0 = ref_randomBytes 0 24"

definition hello :: bytes where
  "hello = [104, 105]"

definition hello_box :: bytes where
  "hello_box = ref_seal (ref_shared (pk bob) (sk alice)) nonce0 hello"

definition hello_frame :: bytes where
  "hello_frame = ref_frame hello_box nonce0"

text \<open>
  A frame whose ciphertext is too short to hold the 16 bytes that authenticate it, and a
  frame whose nonce is empty.
\<close>

definition short_frame :: bytes where
  "short_frame = ref_frame [] nonce0"

definition no_nonce_frame :: bytes where
  "no_nonce_frame = ref_utf8_encode ''{\"data\":\"\",\"nonce\":\"\"}''"

text \<open>Bob's side of the connection once his channel is built.\<close>

definition bob_conn :: netconn where
  "bob_conn = snd (CryptoComm_new (pk alice) (sk bob) NetConn_new)"

text \<open>
  A chunk whose length prefix claims \<open>2 ^ 50\<close> bytes, of which two have arrived, and a
  chunk of 101 bytes of a length prefix that has not ended.
\<close>

definition huge_chunk :: bytes where
  "huge_chunk = varint_encode (2 ^ 50) @ [104, 105]"

definition long_prefix_chunk :: bytes where
  "long_prefix_chunk = replicate 101 128"

section \<open>Notions used in the statements\<close>

text \<open>
  Two states of a NetConn that differ at most in their listeners: the same frames written
  to the encoder, the same socket, the same bytes held by the decoder.
\<close>

definition untouched :: "netconn \<Rightarrow> netconn \<Rightarrow> bool" where
  "untouched nc nc' =
     (encoder_written nc' = encoder_written nc \<and> socket_destroyed nc' = socket_destroyed nc \<and>
      decoder_buffer nc' = decoder_buffer nc)"


text \<open>The events a run emits, the exception that ended it, the state it leaves.\<close>

definition events_of :: "'s result \<Rightarrow> event list" where
  "events_of r = fst r"

definition thrown_of :: "'s result \<Rightarrow> error option" where
  "thrown_of r = fst (snd r)"

definition state_of :: "'s result \<Rightarrow> 's" where
  "state_of r = snd (snd r)"

text \<open>A connection whose socket is, or is not, destroyed, all else equal.\<close>

definition with_socket :: "bool \<Rightarrow> conn \<Rightarrow> conn" where
  "with_socket b s = s\<lparr>net := (net s)\<lparr>socket_destroyed := b\<rparr>\<rparr>"

text \<open>
  What the guard of line 96 and the copy of line 101 make of a \<open>message\<close> event of the
  earlier version: nothing of one that carries \<open>null\<close>, and of one that carries the
  \<open>Uint8Array\<close> the event with its bytes in a \<open>Buffer\<close>.
\<close>

fun guarded :: "event \<Rightarrow> event list" where
  "guarded (Message c Null) = []"
| "guarded (Message c (Uint8Array m)) = [Message c (Buffer m)]"
| "guarded e = [e]"
section \<open>Sequencing and the event loop\<close>

lemma then_do_None: "then_do (evs, None, s) k = (case k s of (evs', x, s') \<Rightarrow> (evs @ evs', x, s'))"
  by (simp add: then_do_def)

lemma then_do_Some: "then_do (evs, Some e, s) k = (evs, Some e, s)"
  by (simp add: then_do_def)

lemma then_do_assoc: "then_do (then_do r f) g = then_do r (\<lambda>s. then_do (f s) g)"
  by (auto simp: then_do_def split: prod.splits option.splits)

lemma then_do_unit: "then_do ([], None, s) k = k s"
  by (simp add: then_do_def split: prod.splits)

lemma then_do_cong: "(\<And>s. f s = g s) \<Longrightarrow> then_do r f = then_do r g"
  by (simp add: then_do_def split: prod.splits option.splits)

lemma emit_frames_append:
  "emit_frames p (fs @ gs) nc = then_do (emit_frames p fs nc) (emit_frames p gs)"
proof (induction fs arbitrary: nc)
  case Nil
  show ?case by (simp add: then_do_unit)
next
  case (Cons f fs)
  have "emit_frames p ((f # fs) @ gs) nc =
        then_do (emit_data p f nc) (\<lambda>s. then_do (emit_frames p fs s) (emit_frames p gs))"
    by (simp add: Cons.IH cong: then_do_cong)
  then show ?case by (simp add: then_do_assoc)
qed


text \<open>A NetConn on which one CryptoComm listens and nothing else.\<close>

lemma emit_data_established:
  assumes "data_listeners nc = [(False, CommData c)]"
  shows "emit_data p f nc =
     (case onData p c f of
        Inl e \<Rightarrow> ([], Some e, nc\<lparr>decoder_stalled := True\<rparr>)
      | Inr evs \<Rightarrow> (evs, None, nc))"
  using assms by (simp add: emit_data_def then_do_def split: sum.splits)

text \<open>The envelope of a frame that parses to the two strings \<open>send\<close> writes.\<close>

lemma envelope_of_sent:
  assumes "JSON_parse p (utf8_decode p frame) =
             Some (JObj [(''data'', JStr d), (''nonce'', JStr n)])"
  shows "envelope_of p frame = Inr (base64_decode p d, base64_decode p n)"
  using assms by (simp add: envelope_of_def)

text \<open>
  With one CryptoComm listening, frames leave the NetConn as it was, unless one of them
  throws, which stops the decoder.
\<close>

lemma emit_frames_established:
  assumes "data_listeners nc = [(False, CommData c)]"
  shows "\<exists>evs x. emit_frames p fs nc =
           (evs, x, if x = None then nc else nc\<lparr>decoder_stalled := True\<rparr>)"
proof (induction fs)
  case Nil
  show ?case by simp
next
  case (Cons f fs)
  from Cons.IH obtain evs x
    where rest: "emit_frames p fs nc = (evs, x, if x = None then nc else nc\<lparr>decoder_stalled := True\<rparr>)"
    by blast
  show ?case
    using assms rest
    by (cases "onData p c f") (simp_all add: emit_data_established then_do_def)
qed


text \<open>No handler of incoming data touches those, and none throws an error of the specification.\<close>

lemma get_prop_error: "get_prop v k = Inl e \<Longrightarrow> e = TypeError"
  by (cases v) (auto split: option.splits)

lemma Buffer_from_base64_error: "Buffer_from_base64 p v = Inl e \<Longrightarrow> e = TypeError"
  by (cases v) (auto split: option.splits)

lemma envelope_of_error:
  "envelope_of p f = Inl e \<Longrightarrow> e = SyntaxError \<or> e = TypeError"
  by (auto simp: envelope_of_def split: option.splits sum.splits
      dest: get_prop_error Buffer_from_base64_error)

lemma onData_error:
  "onData p c f = Inl e \<Longrightarrow> e = SyntaxError \<or> e = TypeError \<or> e = NaclError"
  by (auto simp: onData_def split: sum.splits call.splits option.splits prod.splits
      dest: envelope_of_error)

lemma call_data_listener_keeps:
  assumes "call_data_listener p l data nc = (evs, x, nc')"
  shows "untouched nc nc' \<and> x \<noteq> Some FramingError \<and> x \<noteq> Some ProtocolError"
proof (cases l)
  case (FirstData our_sk)
  with assms show ?thesis
    by (auto simp: untouched_def CryptoComm_new_def Let_def CryptoComm_listen_def)
next
  case (CommData c)
  with assms show ?thesis
    by (auto simp: untouched_def split: sum.splits dest: onData_error)
qed

lemma call_each_keeps:
  "call_each p ls data nc = (evs, x, nc') \<Longrightarrow>
     untouched nc nc' \<and> x \<noteq> Some FramingError \<and> x \<noteq> Some ProtocolError"
proof (induction ls arbitrary: nc evs x nc')
  case Nil
  then show ?case by (simp add: untouched_def)
next
  case (Cons r ls)
  obtain once l where r: "r = (once, l)" by (cases r)
  let ?nc = "if once then nc\<lparr>data_listeners := remove1 (once, l) (data_listeners nc)\<rparr> else nc"
  obtain evs1 x1 nc1 where first: "call_data_listener p l data ?nc = (evs1, x1, nc1)"
    by (cases "call_data_listener p l data ?nc") auto
  have kept: "untouched ?nc nc1 \<and> x1 \<noteq> Some FramingError \<and> x1 \<noteq> Some ProtocolError"
    by (rule call_data_listener_keeps [OF first])
  have same: "untouched nc ?nc"
    by (simp add: untouched_def)
  show ?case
  proof (cases x1)
    case (Some e)
    with Cons.prems r first have "x = x1 \<and> nc' = nc1"
      by (simp add: then_do_def)
    with kept same show ?thesis by (auto simp: untouched_def)
  next
    case None
    obtain evs2 x2 nc2 where rest: "call_each p ls data nc1 = (evs2, x2, nc2)"
      by (cases "call_each p ls data nc1") auto
    with Cons.prems r first None have "x = x2 \<and> nc' = nc2"
      by (simp add: then_do_def)
    with Cons.IH [OF rest] kept same show ?thesis by (auto simp: untouched_def)
  qed
qed

lemma emit_frames_keeps:
  "emit_frames p fs nc = (evs, x, nc') \<Longrightarrow>
     untouched nc nc' \<and> x \<noteq> Some FramingError \<and> x \<noteq> Some ProtocolError"
proof (induction fs arbitrary: nc evs x nc')
  case Nil
  then show ?case by (simp add: untouched_def)
next
  case (Cons f fs)
  obtain evs1 x1 nc1 where first: "emit_data p f nc = (evs1, x1, nc1)"
    by (cases "emit_data p f nc") auto
  then have kept: "untouched nc nc1 \<and> x1 \<noteq> Some FramingError \<and> x1 \<noteq> Some ProtocolError"
    by (simp add: emit_data_def call_each_keeps)
  show ?case
  proof (cases x1)
    case (Some e)
    with Cons.prems first have "x = x1 \<and> nc' = nc1"
      by (simp add: then_do_def)
    with kept show ?thesis by simp
  next
    case None
    obtain evs2 x2 nc2 where rest: "emit_frames p fs nc1 = (evs2, x2, nc2)"
      by (cases "emit_frames p fs nc1") auto
    with Cons.prems first None have "x = x2 \<and> nc' = nc2"
      by (simp add: then_do_def)
    with Cons.IH [OF rest] kept show ?thesis by (auto simp: untouched_def)
  qed
qed

lemma socket_data_keeps:
  assumes "socket_data p chunk nc = (evs, x, nc')"
  shows "encoder_written nc' = encoder_written nc \<and> socket_destroyed nc' = socket_destroyed nc \<and>
         x \<noteq> Some FramingError \<and> x \<noteq> Some ProtocolError"
proof (cases "decoder_stalled nc")
  case True
  with assms show ?thesis
    by (auto simp: socket_data_def)
next
  case False
  obtain frames r where dec: "lp_decode p (decoder_buffer nc) chunk = (frames, r)"
    by (cases "lp_decode p (decoder_buffer nc) chunk") auto
  show ?thesis
  proof (cases r)
    case (Inr rest)
    with assms False dec
    have "emit_frames p frames (nc\<lparr>decoder_buffer := rest\<rparr>) = (evs, x, nc')"
      by (simp add: socket_data_def)
    from emit_frames_keeps [OF this] show ?thesis
      by (simp add: untouched_def)
  next
    case (Inl failure)
    obtain evs1 x1 nc1 where r1: "emit_frames p frames nc = (evs1, x1, nc1)"
      by (cases "emit_frames p frames nc") auto
    from emit_frames_keeps [OF r1]
    have kept: "untouched nc nc1 \<and> x1 \<noteq> Some FramingError \<and> x1 \<noteq> Some ProtocolError" .
    from assms False dec Inl r1 kept show ?thesis
      by (cases x1; cases failure) (auto simp: socket_data_def then_do_def untouched_def)
  qed
qed

text \<open>The first frame on the NetConn of an accepted socket.\<close>

lemma emit_data_first:
  "emit_data p f (TrannyServer_connection kp) =
     ([Client \<lparr>comm_pk = f, theirPk = f, ourSk = sk kp\<rparr>], None,
      CryptoComm_listen \<lparr>comm_pk = f, theirPk = f, ourSk = sk kp\<rparr> NetConn_new)"
  by (simp add: emit_data_def TrannyServer_connection_def NetConn_new_def CryptoComm_new_def
      Let_def CryptoComm_listen_def then_do_def)

text \<open>The events of a channel on incoming frames are its messages.\<close>

lemma onData_events:
  "onData p c f = Inr evs \<Longrightarrow> \<forall>e\<in>set evs. \<exists>m. e = Message c m"
  by (auto simp: onData_def split: sum.splits call.splits option.splits prod.splits)

lemma emit_frames_messages:
  assumes "data_listeners nc = [(False, CommData c)]"
  shows "\<forall>e\<in>set (events_of (emit_frames p fs nc)). \<exists>m. e = Message c m"
proof (induction fs)
  case Nil
  show ?case by (simp add: events_of_def)
next
  case (Cons f fs)
  obtain evs x nc' where rest: "emit_frames p fs nc = (evs, x, nc')"
    by (cases "emit_frames p fs nc") auto
  with Cons.IH have msgs: "\<forall>e\<in>set evs. \<exists>m. e = Message c m"
    by (simp add: events_of_def)
  show ?case
  proof (cases "onData p c f")
    case (Inl e)
    then show ?thesis
      using assms by (simp add: emit_data_established then_do_def events_of_def)
  next
    case (Inr evs0)
    then have "\<forall>e\<in>set evs0. \<exists>m. e = Message c m"
      by (rule onData_events)
    with Inr msgs rest show ?thesis
      using assms by (auto simp: emit_data_established then_do_def events_of_def)
  qed
qed

text \<open>The frames written to the encoder only grow, at their end.\<close>

lemma step_written:
  "\<exists>more. encoder_written (net (state_of (step p i s))) = encoder_written (net s) @ more"
proof (cases i)
  case (SocketData chunk)
  obtain evs x nc' where r: "socket_data p chunk (net s) = (evs, x, nc')"
    by (cases "socket_data p chunk (net s)") auto
  from socket_data_keeps [OF r] r SocketData show ?thesis
    by (simp add: state_of_def lift_net_def)
next
  case SocketClose
  then show ?thesis
    by (simp add: state_of_def lift_net_def socket_close_def emit_disconnected_def)
next
  case (Send c data)
  then show ?thesis
    by (simp add: state_of_def CryptoComm_send_def Let_def NetConn_send_def split: call.splits)
next
  case Destroy
  then show ?thesis
    by (simp add: state_of_def CryptoComm_destroy_def NetConn_destroy_def)
qed

lemma run_written:
  "\<exists>more. encoder_written (net (state_of (run p ins s))) = encoder_written (net s) @ more"
proof (induction ins arbitrary: s)
  case Nil
  show ?case by (simp add: state_of_def)
next
  case (Cons i ins)
  obtain evs x s1 where first: "step p i s = (evs, x, s1)"
    by (cases "step p i s") auto
  from step_written [of p i s] first obtain m1
    where m1: "encoder_written (net s1) = encoder_written (net s) @ m1"
    by (auto simp: state_of_def)
  show ?case
  proof (cases x)
    case (Some e)
    with first m1 show ?thesis
      by (simp add: then_do_def state_of_def)
  next
    case None
    from Cons.IH [of s1] obtain m2
      where m2: "encoder_written (net (state_of (run p ins s1))) = encoder_written (net s1) @ m2"
      by blast
    have "state_of (run p (i # ins) s) = state_of (run p ins s1)"
      using first None by (simp add: then_do_def state_of_def split: prod.splits)
    with m1 m2 show ?thesis by simp
  qed
qed

text \<open>No handler reads whether the socket is destroyed.\<close>

lemma call_data_listener_socket:
  "call_data_listener p l data (nc\<lparr>socket_destroyed := b\<rparr>) =
     (case call_data_listener p l data nc of
        (evs, x, nc') \<Rightarrow> (evs, x, nc'\<lparr>socket_destroyed := b\<rparr>))"
  by (cases l) (auto simp: CryptoComm_new_def Let_def CryptoComm_listen_def split: sum.splits)

lemma call_each_socket:
  "call_each p ls data (nc\<lparr>socket_destroyed := b\<rparr>) =
     (case call_each p ls data nc of (evs, x, nc') \<Rightarrow> (evs, x, nc'\<lparr>socket_destroyed := b\<rparr>))"
proof (induction ls arbitrary: nc)
  case Nil
  show ?case by simp
next
  case (Cons r ls)
  obtain once l where r: "r = (once, l)" by (cases r)
  define nc0 where
    "nc0 = (if once then nc\<lparr>data_listeners := remove1 (once, l) (data_listeners nc)\<rparr> else nc)"
  have here: "call_each p (r # ls) data nc =
                then_do (call_data_listener p l data nc0) (call_each p ls data)"
    by (simp add: r nc0_def)
  have "(if once
         then (nc\<lparr>socket_destroyed := b\<rparr>)\<lparr>data_listeners :=
                remove1 (once, l) (data_listeners (nc\<lparr>socket_destroyed := b\<rparr>))\<rparr>
         else nc\<lparr>socket_destroyed := b\<rparr>) = nc0\<lparr>socket_destroyed := b\<rparr>"
    by (simp add: nc0_def)
  then have there: "call_each p (r # ls) data (nc\<lparr>socket_destroyed := b\<rparr>) =
                then_do (call_data_listener p l data (nc0\<lparr>socket_destroyed := b\<rparr>))
                  (call_each p ls data)"
    by (simp only: r call_each.simps)
  obtain evs1 x1 nc1 where first: "call_data_listener p l data nc0 = (evs1, x1, nc1)"
    by (cases "call_data_listener p l data nc0") auto
  have first_b: "call_data_listener p l data (nc0\<lparr>socket_destroyed := b\<rparr>) =
                   (evs1, x1, nc1\<lparr>socket_destroyed := b\<rparr>)"
    using first by (simp add: call_data_listener_socket)
  show ?case
  proof (cases x1)
    case (Some e)
    then show ?thesis
      by (simp only: here there first first_b) (simp add: then_do_def)
  next
    case None
    obtain evs2 x2 nc2 where rest: "call_each p ls data nc1 = (evs2, x2, nc2)"
      by (cases "call_each p ls data nc1") auto
    with Cons.IH [of nc1]
    have rest_b: "call_each p ls data (nc1\<lparr>socket_destroyed := b\<rparr>) =
            (evs2, x2, nc2\<lparr>socket_destroyed := b\<rparr>)"
      by simp
    from None show ?thesis
      by (simp only: here there first first_b) (simp add: then_do_def rest rest_b)
  qed
qed

lemma emit_frames_socket:
  "emit_frames p fs (nc\<lparr>socket_destroyed := b\<rparr>) =
     (case emit_frames p fs nc of (evs, x, nc') \<Rightarrow> (evs, x, nc'\<lparr>socket_destroyed := b\<rparr>))"
proof (induction fs arbitrary: nc)
  case Nil
  show ?case by simp
next
  case (Cons f fs)
  obtain evs1 x1 nc1 where first: "emit_data p f nc = (evs1, x1, nc1)"
    by (cases "emit_data p f nc") auto
  then have first_b: "emit_data p f (nc\<lparr>socket_destroyed := b\<rparr>) =
                        (evs1, x1, nc1\<lparr>socket_destroyed := b\<rparr>)"
    by (simp add: emit_data_def call_each_socket)
  show ?case
  proof (cases x1)
    case (Some e)
    with first first_b show ?thesis
      by (simp add: then_do_def)
  next
    case None
    obtain evs2 x2 nc2 where rest: "emit_frames p fs nc1 = (evs2, x2, nc2)"
      by (cases "emit_frames p fs nc1") auto
    with Cons.IH [of nc1]
    have "emit_frames p fs (nc1\<lparr>socket_destroyed := b\<rparr>) =
            (evs2, x2, nc2\<lparr>socket_destroyed := b\<rparr>)"
      by simp
    with first first_b None rest show ?thesis
      by (simp add: then_do_def)
  qed
qed

lemma socket_data_socket:
  "socket_data p chunk (nc\<lparr>socket_destroyed := b\<rparr>) =
     (case socket_data p chunk nc of (evs, x, nc') \<Rightarrow> (evs, x, nc'\<lparr>socket_destroyed := b\<rparr>))"
proof (cases "decoder_stalled nc")
  case True
  have "(nc\<lparr>socket_destroyed := b\<rparr>)\<lparr>decoder_buffer := decoder_buffer nc @ chunk\<rparr> =
        (nc\<lparr>decoder_buffer := decoder_buffer nc @ chunk\<rparr>)\<lparr>socket_destroyed := b\<rparr>"
    by (cases nc) simp
  with True show ?thesis
    by (simp add: socket_data_def)
next
  case False
  obtain frames r where dec: "lp_decode p (decoder_buffer nc) chunk = (frames, r)"
    by (cases "lp_decode p (decoder_buffer nc) chunk") auto
  show ?thesis
  proof (cases r)
    case (Inr rest)
    have swap: "(nc\<lparr>socket_destroyed := b\<rparr>)\<lparr>decoder_buffer := rest\<rparr> =
                (nc\<lparr>decoder_buffer := rest\<rparr>)\<lparr>socket_destroyed := b\<rparr>"
      by (cases nc) simp
    have "socket_data p chunk (nc\<lparr>socket_destroyed := b\<rparr>) =
            emit_frames p frames ((nc\<lparr>socket_destroyed := b\<rparr>)\<lparr>decoder_buffer := rest\<rparr>)"
      using False dec Inr by (simp add: socket_data_def)
    also have "\<dots> =
            emit_frames p frames ((nc\<lparr>decoder_buffer := rest\<rparr>)\<lparr>socket_destroyed := b\<rparr>)"
      by (simp only: swap)
    also have "\<dots> = (case emit_frames p frames (nc\<lparr>decoder_buffer := rest\<rparr>) of
                        (evs, x, nc') \<Rightarrow> (evs, x, nc'\<lparr>socket_destroyed := b\<rparr>))"
      by (rule emit_frames_socket)
    also have "\<dots> = (case socket_data p chunk nc of
                        (evs, x, nc') \<Rightarrow> (evs, x, nc'\<lparr>socket_destroyed := b\<rparr>))"
      using False dec Inr by (simp add: socket_data_def)
    finally show ?thesis .
  next
    case (Inl failure)
    obtain evs1 x1 nc1 where r1: "emit_frames p frames nc = (evs1, x1, nc1)"
      by (cases "emit_frames p frames nc") auto
    then have r1_b: "emit_frames p frames (nc\<lparr>socket_destroyed := b\<rparr>) =
                       (evs1, x1, nc1\<lparr>socket_destroyed := b\<rparr>)"
      by (simp add: emit_frames_socket)
    have swap: "(nc1\<lparr>socket_destroyed := b\<rparr>)\<lparr>decoder_stalled := True\<rparr> =
                (nc1\<lparr>decoder_stalled := True\<rparr>)\<lparr>socket_destroyed := b\<rparr>"
      by (cases nc1) simp
    from False dec Inl r1 r1_b swap show ?thesis
      by (cases x1) (simp_all add: socket_data_def then_do_def)
  qed
qed

lemma step_socket:
  "\<exists>b'. step p i (with_socket b s) =
     (events_of (step p i s), thrown_of (step p i s), with_socket b' (state_of (step p i s)))"
proof (cases i)
  case (SocketData chunk)
  obtain evs x nc' where r: "socket_data p chunk (net s) = (evs, x, nc')"
    by (cases "socket_data p chunk (net s)") auto
  with SocketData have "step p i (with_socket b s) =
     (events_of (step p i s), thrown_of (step p i s), with_socket b (state_of (step p i s)))"
    by (simp add: with_socket_def socket_data_socket lift_net_def events_of_def thrown_of_def
        state_of_def)
  then show ?thesis by blast
next
  case SocketClose
  then have "step p i (with_socket b s) =
     (events_of (step p i s), thrown_of (step p i s), with_socket b (state_of (step p i s)))"
    by (simp add: with_socket_def socket_close_def emit_disconnected_def lift_net_def
        events_of_def thrown_of_def state_of_def)
  then show ?thesis by blast
next
  case (Send c data)
  then have "step p i (with_socket b s) =
     (events_of (step p i s), thrown_of (step p i s), with_socket b (state_of (step p i s)))"
    by (simp add: with_socket_def CryptoComm_send_def Let_def NetConn_send_def events_of_def
        thrown_of_def state_of_def split: call.splits)
  then show ?thesis by blast
next
  case Destroy
  then have "step p i (with_socket b s) =
     (events_of (step p i s), thrown_of (step p i s), with_socket True (state_of (step p i s)))"
    by (simp add: with_socket_def CryptoComm_destroy_def NetConn_destroy_def events_of_def
        thrown_of_def state_of_def)
  then show ?thesis by blast
qed

lemma run_socket:
  "\<exists>b'. run p ins (with_socket b s) =
     (events_of (run p ins s), thrown_of (run p ins s), with_socket b' (state_of (run p ins s)))"
proof (induction ins arbitrary: b s)
  case Nil
  have "run p [] (with_socket b s) =
     (events_of (run p [] s), thrown_of (run p [] s), with_socket b (state_of (run p [] s)))"
    by (simp add: events_of_def thrown_of_def state_of_def)
  then show ?case by blast
next
  case (Cons i ins)
  obtain evs x s1 where first: "step p i s = (evs, x, s1)"
    by (cases "step p i s") auto
  from step_socket [of p i b s] first obtain b1
    where first_b: "step p i (with_socket b s) = (evs, x, with_socket b1 s1)"
    by (auto simp: events_of_def thrown_of_def state_of_def)
  show ?case
  proof (cases x)
    case (Some e)
    with first first_b have "run p (i # ins) (with_socket b s) =
       (events_of (run p (i # ins) s), thrown_of (run p (i # ins) s),
        with_socket b1 (state_of (run p (i # ins) s)))"
      by (simp add: then_do_def events_of_def thrown_of_def state_of_def)
    then show ?thesis by blast
  next
    case None
    from Cons.IH [of b1 s1] obtain b2
      where rest_b: "run p ins (with_socket b1 s1) =
         (events_of (run p ins s1), thrown_of (run p ins s1), with_socket b2 (state_of (run p ins s1)))"
      by blast
    with first first_b None have "run p (i # ins) (with_socket b s) =
       (events_of (run p (i # ins) s), thrown_of (run p (i # ins) s),
        with_socket b2 (state_of (run p (i # ins) s)))"
      by (simp add: then_do_def events_of_def thrown_of_def state_of_def split: prod.splits)
    then show ?thesis by blast
  qed
qed





text \<open>An exception ends the run of the connection, and the process.\<close>

lemma process_run_thrown:
  assumes "i < length cs" and "step p x (cs ! i) = (evs, Some e, s')"
  shows "process_run p ((i, x) # later) cs = (evs, Some e, cs[i := s'])"
  using assms by (simp add: then_do_def)

text \<open>A decoder that has stopped delivers nothing.\<close>

lemma socket_data_stalled:
  assumes "decoder_stalled nc"
  shows "events_of (socket_data p chunk nc) = [] \<and> thrown_of (socket_data p chunk nc) = None \<and>
         decoder_stalled (state_of (socket_data p chunk nc))"
  using assms by (simp add: socket_data_def events_of_def thrown_of_def state_of_def)

text \<open>An exception of a listener of \<open>data\<close> stops the decoder.\<close>

lemma call_data_listener_thrown:
  "call_data_listener p l data nc = (evs, Some e, nc') \<Longrightarrow> decoder_stalled nc'"
  by (cases l) (auto simp: CryptoComm_new_def Let_def split: sum.splits)

lemma call_each_thrown:
  "call_each p ls data nc = (evs, Some e, nc') \<Longrightarrow> decoder_stalled nc'"
proof (induction ls arbitrary: nc evs)
  case Nil
  then show ?case by simp
next
  case (Cons r ls)
  obtain once l where r: "r = (once, l)" by (cases r)
  let ?nc = "if once then nc\<lparr>data_listeners := remove1 (once, l) (data_listeners nc)\<rparr> else nc"
  obtain evs1 x1 nc1 where first: "call_data_listener p l data ?nc = (evs1, x1, nc1)"
    by (cases "call_data_listener p l data ?nc") auto
  show ?case
  proof (cases x1)
    case (Some e1)
    with Cons.prems r first have "nc' = nc1"
      by (simp add: then_do_def)
    with first Some show ?thesis
      by (simp add: call_data_listener_thrown)
  next
    case None
    obtain evs2 x2 nc2 where rest: "call_each p ls data nc1 = (evs2, x2, nc2)"
      by (cases "call_each p ls data nc1") auto
    with Cons.prems r first None have "x2 = Some e \<and> nc' = nc2"
      by (simp add: then_do_def)
    with rest Cons.IH [of nc1 evs2] show ?thesis by simp
  qed
qed

lemma emit_frames_thrown:
  "emit_frames p fs nc = (evs, Some e, nc') \<Longrightarrow> decoder_stalled nc'"
proof (induction fs arbitrary: nc evs)
  case Nil
  then show ?case by simp
next
  case (Cons f fs)
  obtain evs1 x1 nc1 where first: "emit_data p f nc = (evs1, x1, nc1)"
    by (cases "emit_data p f nc") auto
  show ?case
  proof (cases x1)
    case (Some e1)
    with Cons.prems first have "nc' = nc1"
      by (simp add: then_do_def)
    with first Some show ?thesis
      by (simp add: emit_data_def call_each_thrown)
  next
    case None
    obtain evs2 x2 nc2 where rest: "emit_frames p fs nc1 = (evs2, x2, nc2)"
      by (cases "emit_frames p fs nc1") auto
    with Cons.prems first None have "x2 = Some e \<and> nc' = nc2"
      by (simp add: then_do_def)
    with rest Cons.IH [of nc1 evs2] show ?thesis by simp
  qed
qed
section \<open>Facts of the reference implementation\<close>

lemma unat_byte: "k < 256 \<Longrightarrow> unat (of_nat k :: byte) = k"
  by (simp add: unat_of_nat)

lemma dh_power_power: "dh_power (unat (dh_power g y)) x = of_nat (g ^ (unat y * unat x) mod 251)"
proof -
  have "unat (of_nat (g ^ unat y mod 251) :: byte) = g ^ unat y mod 251"
    by (rule unat_byte) (simp add: less_trans [OF mod_less_divisor])
  then show ?thesis
    by (simp only: dh_power_def power_mod power_mult)
qed

lemma ref_shared_agreed:
  "length a = length b \<Longrightarrow> ref_shared (ref_public b) a = ref_shared (ref_public a) b"
proof (induction a b rule: list_induct2)
  case Nil
  show ?case by (simp add: ref_shared_def ref_public_def)
next
  case (Cons x xs y ys)
  have "dh_power (unat (dh_power 6 y)) x = dh_power (unat (dh_power 6 x)) y"
    by (simp only: dh_power_power mult.commute)
  with Cons.IH show ?case
    by (simp add: ref_shared_def ref_public_def)
qed

lemma xor_twice:
  fixes m ks :: bytes
  shows "length ks = length m \<Longrightarrow> map2 (XOR) (map2 (XOR) m ks) ks = m"
  by (induction ks m rule: list_induct2) (simp_all add: xor.assoc)

lemma ref_unseal_seal: "ref_unseal key n (ref_seal key n m) = Some m"
proof -
  define body where "body = map2 (XOR) m (ref_keystream key n (length m))"
  have len: "length body = length m"
    by (simp add: body_def ref_keystream_def)
  have mac: "length (ref_mac key n body) = 16"
    by (simp add: ref_mac_def)
  have "map2 (XOR) body (ref_keystream key n (length m)) = m"
    unfolding body_def by (rule xor_twice) (simp add: ref_keystream_def)
  with len mac show ?thesis
    by (simp add: ref_unseal_def ref_seal_def Let_def body_def [symmetric])
qed

lemma ref_box_roundtrip:
  assumes "length n = 24" and "length a = 32" and "length b = 32"
  shows "ref_box m n (ref_public b) a = Returns (ref_seal (ref_shared (ref_public b) a) n m) \<and>
         ref_box_open (ref_seal (ref_shared (ref_public b) a) n m) n (ref_public a) b =
           Returns (Some m)"
proof -
  have "ref_shared (ref_public a) b = ref_shared (ref_public b) a"
    using assms by (simp add: ref_shared_agreed)
  with assms show ?thesis
    by (simp add: ref_box_def ref_box_open_def ref_unseal_seal ref_public_def)
qed

lemma distinct_alphabet: "distinct base64_alphabet"
  by (simp add: base64_alphabet_def)

lemma length_alphabet: "length base64_alphabet = 64"
  by (simp add: base64_alphabet_def)

lemma char_sextet_char: "char_sextet (sextet_char n) = Some (n mod 64)"
proof -
  let ?i = "n mod 64"
  have i: "?i < length base64_alphabet" by (simp add: length_alphabet)
  have "takeWhile (\<lambda>x. x \<noteq> base64_alphabet ! ?i) base64_alphabet = take ?i base64_alphabet"
  proof (rule takeWhile_eq_take_P_nth)
    fix j assume "j < ?i" "j < length base64_alphabet"
    then show "base64_alphabet ! j \<noteq> base64_alphabet ! ?i"
      using distinct_alphabet i by (simp add: nth_eq_iff_index_eq)
  next
    show "\<not> base64_alphabet ! ?i \<noteq> base64_alphabet ! ?i" by simp
  qed
  then show ?thesis
    using i by (simp add: char_sextet_def sextet_char_def Let_def length_alphabet)
qed

lemma char_sextet_pad: "char_sextet (CHR ''='') = None"
  by (simp add: char_sextet_def base64_alphabet_def)

lemma digits64:
  assumes "n < 16777216"
  shows "(n div 262144 mod 64) * 262144 + (n div 4096 mod 64) * 4096 + (n div 64 mod 64) * 64 + n mod 64 = (n::nat)"
proof -
  define q1 where "q1 = n div 64"
  define q2 where "q2 = q1 div 64"
  define q3 where "q3 = q2 div 64"
  have e2: "n div 4096 = q2" by (simp add: q1_def q2_def div_mult2_eq)
  have e3: "n div 262144 = q3" by (simp add: q1_def q2_def q3_def div_mult2_eq)
  have "q3 < 64" using assms unfolding e3 [symmetric] by simp
  then have m3: "q3 mod 64 = q3" by simp
  have d1: "n = q1 * 64 + n mod 64" by (simp add: q1_def)
  have d2: "q1 = q2 * 64 + q1 mod 64" by (simp add: q2_def)
  have d3: "q2 = q3 * 64 + q2 mod 64" by (simp add: q3_def)
  show ?thesis
    unfolding e2 e3 m3 q1_def [symmetric] using d1 d2 d3 by linarith
qed

lemma bytes3:
  fixes a b c :: byte
  defines "n \<equiv> unat a * 65536 + unat b * 256 + unat c"
  shows "n < 16777216" "(of_nat (n div 65536) :: byte) = a" "(of_nat (n div 256) :: byte) = b" "(of_nat n :: byte) = c"
proof -
  have z: "(256 :: byte) = 0" by simp
  have z2: "(65536 :: byte) = 0" by simp
  have a: "unat a < 256" and b: "unat b < 256" and c: "unat c < 256"
    using unsigned_less [of a] unsigned_less [of b] unsigned_less [of c] by simp_all
  show "n < 16777216" using a b c by (simp add: n_def)
  have "n div 65536 = unat a" using b c by (simp add: n_def)
  then show "(of_nat (n div 65536) :: byte) = a" by simp
  have "n div 256 = unat a * 256 + unat b" using c by (simp add: n_def)
  then show "(of_nat (n div 256) :: byte) = b" by (simp add: z)
  show "(of_nat n :: byte) = c" by (simp add: n_def z z2)
qed

lemma sextets_bytes_3:
  fixes a b c :: byte
  defines "n \<equiv> unat a * 65536 + unat b * 256 + unat c"
  shows "sextets_bytes (n div 262144 mod 64 # n div 4096 mod 64 # n div 64 mod 64 # n mod 64 # rest) =
           a # b # c # sextets_bytes rest"
proof -
  have "n < 16777216"
    unfolding n_def by (rule bytes3)
  then have "n div 262144 mod 64 * 262144 + n div 4096 mod 64 * 4096 + n div 64 mod 64 * 64 +
             n mod 64 = n"
    by (rule digits64)
  then show ?thesis
    using bytes3 (2-4) [of a b c]
    by (simp only: sextets_bytes.simps Let_def n_def [symmetric] append.simps)
qed

lemma sextets_bytes_2:
  fixes a b :: byte
  defines "n \<equiv> unat a * 65536 + unat b * 256"
  shows "sextets_bytes [n div 262144 mod 64, n div 4096 mod 64, n div 64 mod 64] = [a, b]"
proof -
  have n: "n = unat a * 65536 + unat b * 256 + unat (0 :: byte)"
    by (simp add: n_def)
  have "n < 16777216"
    unfolding n by (rule bytes3)
  then have "n div 262144 mod 64 * 262144 + n div 4096 mod 64 * 4096 + n div 64 mod 64 * 64 +
             n mod 64 = n"
    by (rule digits64)
  moreover have "n mod 64 = 0"
    by (simp add: n_def)
  ultimately have "n div 262144 mod 64 * 262144 + n div 4096 mod 64 * 4096 + n div 64 mod 64 * 64 = n"
    by (simp only: add_0_right)
  then show ?thesis
    using bytes3 (2-3) [of a b 0]
    by (simp only: sextets_bytes.simps Let_def n [symmetric])
qed

lemma sextets_bytes_1:
  fixes a :: byte
  defines "n \<equiv> unat a * 65536"
  shows "sextets_bytes [n div 262144 mod 64, n div 4096 mod 64] = [a]"
proof -
  have n: "n = unat a * 65536 + unat (0 :: byte) * 256 + unat (0 :: byte)"
    by (simp add: n_def)
  have "n < 16777216"
    unfolding n by (rule bytes3)
  then have "n div 262144 mod 64 * 262144 + n div 4096 mod 64 * 4096 + n div 64 mod 64 * 64 +
             n mod 64 = n"
    by (rule digits64)
  moreover have "n mod 64 = 0" "n div 64 mod 64 = 0"
    by (simp_all add: n_def)
  ultimately have "n div 262144 mod 64 * 262144 + n div 4096 mod 64 * 4096 = n"
    by (simp only: add_0_right mult_zero_left)
  then show ?thesis
    using bytes3 (2) [of a 0 0]
    by (simp only: sextets_bytes.simps Let_def n [symmetric])
qed

lemma ref_base64_roundtrip: "ref_base64_decode (ref_base64_encode bs) = bs"
proof (induction bs rule: ref_base64_encode.induct)
  case 1
  show ?case by (simp add: ref_base64_decode_def List.map_filter_simps)
next
  case (2 a)
  show ?case
    by (simp only: ref_base64_decode_def ref_base64_encode.simps Let_def
        List.map_filter_simps char_sextet_char char_sextet_pad option.case sextets_bytes_1)
next
  case (3 a b)
  show ?case
    by (simp only: ref_base64_decode_def ref_base64_encode.simps Let_def
        List.map_filter_simps char_sextet_char char_sextet_pad option.case sextets_bytes_2)
next
  case (4 a b c rest)
  then show ?case
    by (simp only: ref_base64_decode_def ref_base64_encode.simps Let_def append.simps
        List.map_filter_simps char_sextet_char char_sextet_pad option.case sextets_bytes_3)
qed

lemma sextet_char_alphabet: "sextet_char n \<in> set base64_alphabet"
  by (simp add: sextet_char_def length_alphabet)

lemma ref_base64_chars: "set (ref_base64_encode bs) \<subseteq> insert (CHR ''='') (set base64_alphabet)"
  by (induction bs rule: ref_base64_encode.induct) (auto simp: Let_def sextet_char_alphabet)

lemma ref_base64_clean:
  "CHR 0x22 \<notin> set (ref_base64_encode bs) \<and> CHR 0x5C \<notin> set (ref_base64_encode bs)"
proof -
  have "CHR 0x22 \<notin> insert (CHR ''='') (set base64_alphabet)"
    and "CHR 0x5C \<notin> insert (CHR ''='') (set base64_alphabet)"
    by (simp_all add: base64_alphabet_def)
  with ref_base64_chars [of bs] show ?thesis by blast
qed

lemma quoted_string:
  assumes "CHR 0x22 \<notin> set s" and "CHR 0x5C \<notin> set s"
  shows "quoted (CHR 0x22 # s @ CHR 0x22 # rest) = Some (s, rest)"
proof -
  have "takeWhile (\<lambda>x. x \<noteq> CHR 0x22) (s @ CHR 0x22 # rest) = s"
    using assms(1) by (induction s) auto
  moreover have "dropWhile (\<lambda>x. x \<noteq> CHR 0x22) (s @ CHR 0x22 # rest) = CHR 0x22 # rest"
    using assms(1) by (induction s) auto
  ultimately show ?thesis
    using assms(2) by simp
qed

lemma ref_parse_envelope:
  assumes "CHR 0x22 \<notin> set d \<and> CHR 0x5C \<notin> set d" and "CHR 0x22 \<notin> set n \<and> CHR 0x5C \<notin> set n"
  shows "ref_JSON_parse (ref_JSON_stringify (JObj [(''data'', JStr d), (''nonce'', JStr n)])) =
           Some (JObj [(''data'', JStr d), (''nonce'', JStr n)])"
proof -
  have key1: "quoted (CHR 0x22 # CHR ''d'' # CHR ''a'' # CHR ''t'' # CHR ''a'' # CHR 0x22 # rest) =
                Some (''data'', rest)" for rest
    by simp
  have key2: "quoted (CHR 0x22 # CHR ''n'' # CHR ''o'' # CHR ''n'' # CHR ''c'' # CHR ''e'' # CHR 0x22 # rest) =
                Some (''nonce'', rest)" for rest
    by simp
  have val1: "quoted (CHR 0x22 # d @ CHR 0x22 # rest) = Some (d, rest)" for rest
    using assms(1) by (intro quoted_string) simp_all
  have val2: "quoted (CHR 0x22 # n @ CHR 0x22 # rest) = Some (n, rest)" for rest
    using assms(2) by (intro quoted_string) simp_all
  show ?thesis
    by (simp add: ref_JSON_stringify_def ref_JSON_parse_def key1 key2 val1 val2
        del: quoted.simps)
qed

lemma varint_roundtrip: "varint_decode (varint_encode n @ rest) = Some (n, rest)"
proof (induction n rule: varint_encode.induct)
  case (1 n)
  show ?case
  proof (cases "n < 128")
    case True
    then have "unat (of_nat n :: byte) = n"
      by (simp add: unat_byte)
    with True show ?thesis
      by (subst varint_encode.simps) simp
  next
    case False
    have "unat (of_nat (128 + n mod 128) :: byte) = 128 + n mod 128"
      by (rule unat_byte) simp
    moreover have "varint_decode (varint_encode (n div 128) @ rest) = Some (n div 128, rest)"
      using False by (rule "1.IH")
    ultimately show ?thesis
      using False by (subst varint_encode.simps) (simp del: of_nat_add)
  qed
qed

lemma varint_length: "n < 128 ^ Suc k \<Longrightarrow> length (varint_encode n) \<le> Suc k"
proof (induction n arbitrary: k rule: varint_encode.induct)
  case (1 n)
  show ?case
  proof (cases "n < 128")
    case True
    then show ?thesis
      by (subst varint_encode.simps) simp
  next
    case False
    with "1.prems" obtain j where k: "k = Suc j"
      by (cases k) auto
    have "n div 128 < 128 ^ Suc j"
      using "1.prems" k by (simp add: less_mult_imp_div_less)
    with False have "length (varint_encode (n div 128)) \<le> Suc j"
      by (rule "1.IH")
    with False k show ?thesis
      by (subst varint_encode.simps) simp
  qed
qed

lemma varint_ends: "\<exists>b\<in>set (varint_encode n). unat b < 128"
proof (induction n rule: varint_encode.induct)
  case (1 n)
  show ?case
  proof (cases "n < 128")
    case True
    then have "unat (of_nat n :: byte) = n"
      by (simp add: unat_byte)
    with True show ?thesis
      by (subst varint_encode.simps) simp
  next
    case False
    with "1.IH" show ?thesis
      by (subst varint_encode.simps) simp
  qed
qed

lemma varint_prefix_short:
  assumes "n < 2 ^ 64"
  shows "\<not> prefix_overlong (varint_encode n @ rest)"
proof -
  have "n < 128 ^ Suc 9"
    using assms by simp
  then have "length (varint_encode n) \<le> Suc 9"
    by (rule varint_length)
  then have "take 100 (varint_encode n @ rest) =
               varint_encode n @ take (100 - length (varint_encode n)) rest"
    by simp
  moreover obtain b where "b \<in> set (varint_encode n)" and "\<not> 128 \<le> unat b"
    using varint_ends [of n] by (auto simp: not_le)
  ultimately show ?thesis
    unfolding prefix_overlong_def list_all_iff by (simp only: set_append) blast
qed

lemma ref_lp_roundtrip:
  assumes "f \<noteq> []" and "length f < 2 ^ 64"
  shows "ref_lp_decode [] (ref_lp_encode f) = ([f], Inr [])"
proof -
  obtain n where n: "length (varint_encode (length f) @ f) = Suc n"
    using assms by (cases "length (varint_encode (length f) @ f)") auto
  have "\<not> prefix_overlong []"
    by (simp add: prefix_overlong_def)
  then have "split_frames n [] = ([], Inr [])"
    by (cases n) simp_all
  then have "split_frames (Suc n) (varint_encode (length f) @ f) = ([f], Inr [])"
    using assms by (simp add: varint_roundtrip varint_prefix_short)
  then show ?thesis
    using n by (simp add: ref_lp_decode_def ref_lp_encode_def)
qed

lemma ref_utf8_decode_encode: "ref_utf8_decode (ref_utf8_encode s) = s"
proof -
  have "char_of (unat (of_char c :: byte)) = c" for c
  proof -
    have "(of_char c :: byte) = of_nat (of_char c)"
      by (simp add: of_nat_of_char)
    moreover have "(of_char c :: nat) < 256"
      by (rule nat_of_char_less_256)
    ultimately have "unat (of_char c :: byte) = of_char c"
      by (simp add: unat_of_nat)
    then show ?thesis by simp
  qed
  then show ?thesis
    by (simp add: ref_utf8_decode_def ref_utf8_encode_def map_idI)
qed

lemma ref_base64_length: "length (ref_base64_encode bs) \<le> 2 * length bs + 4"
  by (induction bs rule: ref_base64_encode.induct) (simp_all add: Let_def)

lemma ref_frame_length:
  "ref_frame ct n \<noteq> [] \<and> length (ref_frame ct n) \<le> 2 * length ct + 2 * length n + 32"
  using ref_base64_length [of ct] ref_base64_length [of n]
  by (simp add: ref_frame_def ref_utf8_encode_def ref_JSON_stringify_def)

text \<open>A frame made by \<open>send\<close> gives back its ciphertext and its nonce.\<close>

lemma ref_envelope_frame: "envelope_of reference (ref_frame ct n) = Inr (ct, n)"
proof -
  have "JSON_parse reference (utf8_decode reference (ref_frame ct n)) =
          Some (JObj [(''data'', JStr (ref_base64_encode ct)),
                      (''nonce'', JStr (ref_base64_encode n))])"
    by (simp add: reference_def ref_frame_def ref_utf8_decode_encode ref_parse_envelope
        ref_base64_clean)
  then have "envelope_of reference (ref_frame ct n) =
               Inr (base64_decode reference (ref_base64_encode ct),
                    base64_decode reference (ref_base64_encode n))"
    by (rule envelope_of_sent)
  then show ?thesis
    by (simp add: reference_def ref_base64_roundtrip)
qed

lemma ref_frame_decoded:
  assumes "length ct < 2 ^ 33" and "length n = 24"
  shows "lp_decode reference [] (lp_encode reference (ref_frame ct n)) =
           ([ref_frame ct n], Inr [])"
proof -
  have "length (ref_frame ct n) \<le> 2 * length ct + 2 * length n + 32"
    by (simp add: ref_frame_length)
  with assms have "length (ref_frame ct n) < 2 ^ 64"
    by simp
  then show ?thesis
    by (simp add: reference_def ref_lp_roundtrip ref_frame_length)
qed

lemma ref_draw_length: "length (nacl_randomBytes reference k nonceLength) = 24"
  by (simp add: reference_def ref_randomBytes_def nonceLength_def)

lemma ref_seal_length: "length (ref_seal key n m) = length m + 16"
  by (simp add: ref_seal_def Let_def ref_mac_def ref_keystream_def)

text \<open>A frame on a NetConn with one channel, whose decoder holds nothing and runs.\<close>

lemma socket_data_one_frame:
  assumes "data_listeners nc = [(False, CommData c)]"
    and "decoder_buffer nc = []" and "\<not> decoder_stalled nc"
    and "lp_decode p [] chunk = ([f], Inr [])"
  shows "socket_data p chunk nc =
     (case onData p c f of
        Inl e \<Rightarrow> ([], Some e, nc\<lparr>decoder_stalled := True\<rparr>)
      | Inr evs \<Rightarrow> (evs, None, nc))"
proof -
  have "nc\<lparr>decoder_buffer := []\<rparr> = nc"
    using assms(2) by (cases nc) simp
  with assms show ?thesis
    by (simp add: socket_data_def emit_data_established then_do_def split: sum.splits)
qed

lemma alice_keys: "length (sk alice) = 32 \<and> pk alice = ref_public (sk alice)"
  by (simp add: alice_def ref_keyPair_def alice_secret_def)

lemma bob_keys: "length (sk bob) = 32 \<and> pk bob = ref_public (sk bob)"
  by (simp add: bob_def ref_keyPair_def bob_secret_def)

lemma public_length: "length (ref_public secret) = length secret"
  by (simp add: ref_public_def)

lemma nonce0_length: "length nonce0 = 24"
  by (simp add: nonce0_def ref_randomBytes_def)

lemma bob_conn_eq:
  "bob_conn =
     \<lparr>socket_destroyed = False, decoder_buffer = [], decoder_stalled = False,
      encoder_written = [],
      data_listeners = [(False, CommData bob_comm)], disconnected_listeners = [bob_comm]\<rparr>"
  by (simp add: bob_conn_def CryptoComm_new_def Let_def CryptoComm_listen_def NetConn_new_def
      bob_comm_def)

lemma ref_open_hello:
  "nacl_box_open reference hello_box nonce0 (pk alice) (sk bob) = Returns (Some hello)"
  using ref_box_roundtrip [of nonce0 "sk alice" "sk bob" hello] alice_keys bob_keys nonce0_length
  by (simp add: reference_def hello_box_def)

lemma ref_bob_receives:
  "socket_data reference (lp_encode reference hello_frame) bob_conn =
     ([Message bob_comm (Buffer hello)], None, bob_conn)"
proof -
  have "length hello_box < 2 ^ 33"
    by (simp add: hello_box_def ref_seal_length hello_def)
  then have "lp_decode reference [] (lp_encode reference hello_frame) =
          ([hello_frame], Inr [])"
    unfolding hello_frame_def using nonce0_length by (rule ref_frame_decoded)
  moreover have "onData reference bob_comm hello_frame = Inr [Message bob_comm (Buffer hello)]"
    using ref_open_hello by (simp add: onData_def hello_frame_def ref_envelope_frame bob_comm_def)
  ultimately show ?thesis
    by (simp add: socket_data_one_frame [where c = bob_comm] bob_conn_eq)
qed

text \<open>A box too short for its 16 bytes of authentication opens to \<open>null\<close>.\<close>

lemma ref_open_short:
  "nacl_box_open reference [] nonce0 (pk alice) (sk bob) = Returns None"
  using alice_keys bob_keys nonce0_length
  by (simp add: reference_def ref_box_open_def ref_unseal_def public_length)

text \<open>An empty nonce makes \<open>nacl.box.open\<close> throw.\<close>

lemma ref_open_no_nonce: "nacl_box_open reference ct [] their_pk our_sk = Throws"
  by (simp add: reference_def ref_box_open_def)

lemma ref_parse_hello_bytes: "JSON_parse reference (utf8_decode reference hello) = None"
  by (simp add: reference_def ref_utf8_decode_def ref_JSON_parse_def hello_def char_of_def)

lemma ref_draw0: "nacl_randomBytes reference 0 nonceLength = nonce0"
  by (simp add: reference_def nonceLength_def nonce0_def)

lemma ref_box_hello: "nacl_box reference hello nonce0 (pk bob) (sk alice) = Returns hello_box"
  using ref_box_roundtrip [of nonce0 "sk alice" "sk bob" hello] alice_keys bob_keys nonce0_length
  by (simp add: reference_def hello_box_def)

lemma ref_onData_hello:
  "onData reference bob_comm hello_frame = Inr [Message bob_comm (Buffer hello)]"
  using ref_open_hello by (simp add: onData_def hello_frame_def ref_envelope_frame bob_comm_def)

lemma ref_envelope_no_nonce: "envelope_of reference no_nonce_frame = Inr ([], [])"
proof -
  have "JSON_parse reference (utf8_decode reference no_nonce_frame) =
          Some (JObj [(''data'', JStr ''''), (''nonce'', JStr '''')])"
    by (simp add: reference_def no_nonce_frame_def ref_utf8_decode_encode ref_JSON_parse_def)
  then have "envelope_of reference no_nonce_frame =
               Inr (base64_decode reference '''', base64_decode reference '''')"
    by (rule envelope_of_sent)
  moreover have "base64_decode reference '''' = []"
    by (simp add: reference_def ref_base64_decode_def List.map_filter_def)
  ultimately show ?thesis
    by simp
qed

lemma ref_frame_arrives:
  assumes "f \<noteq> []" and "length f < 2 ^ 64"
  shows "lp_decode reference (decoder_buffer bob_conn) (lp_encode reference f) = ([f], Inr [])"
  using assms by (simp add: reference_def bob_conn_eq ref_lp_roundtrip)

lemma bob_conn_buffer: "bob_conn\<lparr>decoder_buffer := []\<rparr> = bob_conn"
  by (simp add: bob_conn_eq)

text \<open>A frame arriving length prefixed on bob's connection.\<close>

lemma bob_socket_data:
  assumes "f \<noteq> []" and "length f < 2 ^ 64"
  shows "socket_data reference (lp_encode reference f) bob_conn =
     (case onData reference bob_comm f of
        Inl e \<Rightarrow> ([], Some e, bob_conn\<lparr>decoder_stalled := True\<rparr>)
      | Inr evs \<Rightarrow> (evs, None, bob_conn))"
proof (rule socket_data_one_frame)
  show "data_listeners bob_conn = [(False, CommData bob_comm)]"
    by (simp add: bob_conn_eq)
  show "decoder_buffer bob_conn = []"
    by (simp add: bob_conn_eq)
  show "\<not> decoder_stalled bob_conn"
    by (simp add: bob_conn_eq)
  show "lp_decode reference [] (lp_encode reference f) = ([f], Inr [])"
    using assms by (simp add: reference_def ref_lp_roundtrip)
qed

text \<open>The decoder on a length it cannot allocate, and on a prefix that does not end.\<close>

lemma ref_decode_huge: "lp_decode reference [] huge_chunk = ([], Inl CannotAllocate)"
proof -
  obtain n where n: "length huge_chunk = Suc n"
    by (cases "length huge_chunk") (auto simp: huge_chunk_def)
  have "\<not> prefix_overlong (varint_encode (2 ^ 50) @ [104, 105])"
    by (rule varint_prefix_short) simp
  then have "split_frames (Suc n) huge_chunk = ([], Inl CannotAllocate)"
    by (simp add: huge_chunk_def varint_roundtrip allocation_limit_def)
  then show ?thesis
    using n by (simp add: reference_def ref_lp_decode_def)
qed

lemma ref_decode_long_prefix: "lp_decode reference [] long_prefix_chunk = ([], Inl PrefixTooLong)"
proof -
  have "prefix_overlong long_prefix_chunk"
    by (simp add: prefix_overlong_def long_prefix_chunk_def list_all_iff)
  then have "split_frames (Suc 100) long_prefix_chunk = ([], Inl PrefixTooLong)"
    by (simp only: split_frames.simps if_True)
  moreover have "length long_prefix_chunk = Suc 100"
    by (simp add: long_prefix_chunk_def)
  ultimately show ?thesis
    by (simp only: reference_def ref_lp_decode_def platform.simps append_Nil)
qed
section \<open>Round trip\<close>

text \<open>
  C1, on the reference implementation of Box, BoxOpen, the encodings and the framing.
  Take two key pairs \<open>A\<close> and \<open>B\<close> made by the key-pair generator from 32 secret bytes
  each, a nonce of 24 bytes and a message \<open>m\<close> of a length a Buffer can have. The box of
  \<open>m\<close> made with the public key of \<open>B\<close> and the secret key of \<open>A\<close> opens to \<open>m\<close> with the
  public key of \<open>A\<close> and the secret key of \<open>B\<close> under the same nonce. And \<open>send\<close> on the
  channel of \<open>A\<close> to \<open>B\<close> throws nothing and writes one frame, which, arriving length
  prefixed on the socket of the channel of \<open>B\<close> to \<open>A\<close>, is delivered as one \<open>message\<close>
  event carrying exactly \<open>m\<close>, and leaves the connection as it was.
\<close>

theorem roundtrip_delivery:
  assumes made_A: "A = ref_keyPair a \<and> length a = 32"
    and made_B: "B = ref_keyPair b \<and> length b = 32"
    and nonce: "length nonce = 24"
    and size: "length m < 2 ^ 32"
    and sender: "theirPk cA = pk B \<and> ourSk cA = sk A"
    and receiver: "theirPk cB = pk A \<and> ourSk cB = sk B"
    and listening: "data_listeners nb = [(False, CommData cB)]"
    and decoder: "decoder_buffer nb = [] \<and> \<not> decoder_stalled nb"
  shows "(\<exists>ct. nacl_box reference m nonce (pk B) (sk A) = Returns ct \<and>
               nacl_box_open reference ct nonce (pk A) (sk B) = Returns (Some m)) \<and>
         (\<exists>frame. CryptoComm_send reference cA m k na = (None, Suc k, NetConn_send frame na) \<and>
                  wire reference (NetConn_send frame na) =
                    wire reference na @ lp_encode reference frame \<and>
                  socket_data reference (lp_encode reference frame) nb =
                    ([Message cB (Buffer m)], None, nb))"
proof -
  have keys: "pk A = ref_public a" "sk A = a" "pk B = ref_public b" "sk B = b"
    using made_A made_B by (simp_all add: ref_keyPair_def)
  have lengths: "length a = 32" "length b = 32"
    using made_A made_B by simp_all
  have box: "nacl_box reference m n (pk B) (sk A) =
               Returns (ref_seal (ref_shared (ref_public b) a) n m) \<and>
             nacl_box_open reference (ref_seal (ref_shared (ref_public b) a) n m) n (pk A) (sk B) =
               Returns (Some m)"
    if "length n = 24" for n
    using ref_box_roundtrip [OF that lengths, of m] by (simp add: reference_def keys)
  define drawn where "drawn = nacl_randomBytes reference k nonceLength"
  define ct where "ct = ref_seal (ref_shared (ref_public b) a) drawn m"
  have drawn: "length drawn = 24"
    by (simp add: drawn_def ref_draw_length)
  have written: "utf8_encode reference (JSON_stringify reference (JObj
                   [(''data'', JStr (base64_encode reference ct)),
                    (''nonce'', JStr (base64_encode reference drawn))])) = ref_frame ct drawn"
    by (simp add: reference_def ref_frame_def)
  have "nacl_box reference m drawn (theirPk cA) (ourSk cA) = Returns ct"
    using box [OF drawn] sender by (simp add: ct_def)
  then have sent: "CryptoComm_send reference cA m k na =
                     (None, Suc k, NetConn_send (ref_frame ct drawn) na)"
    using written by (simp add: CryptoComm_send_def Let_def drawn_def [symmetric])
  have on_wire: "wire reference (NetConn_send (ref_frame ct drawn) na) =
                   wire reference na @ lp_encode reference (ref_frame ct drawn)"
    by (simp add: wire_def NetConn_send_def)
  have "length ct < 2 ^ 33"
    using size by (simp add: ct_def ref_seal_length)
  then have framed: "lp_decode reference [] (lp_encode reference (ref_frame ct drawn)) =
                       ([ref_frame ct drawn], Inr [])"
    using drawn by (rule ref_frame_decoded)
  have "nacl_box_open reference ct drawn (theirPk cB) (ourSk cB) = Returns (Some m)"
    using box [OF drawn] receiver by (simp add: ct_def)
  then have "onData reference cB (ref_frame ct drawn) = Inr [Message cB (Buffer m)]"
    by (simp add: onData_def ref_envelope_frame)
  moreover have "socket_data reference (lp_encode reference (ref_frame ct drawn)) nb =
     (case onData reference cB (ref_frame ct drawn) of
        Inl e \<Rightarrow> ([], Some e, nb\<lparr>decoder_stalled := True\<rparr>)
      | Inr evs \<Rightarrow> (evs, None, nb))"
    using listening decoder framed by (intro socket_data_one_frame) simp_all
  ultimately have received: "socket_data reference (lp_encode reference (ref_frame ct drawn)) nb =
                     ([Message cB (Buffer m)], None, nb)"
    by simp
  from box [OF nonce] sent on_wire received show ?thesis
    by blast
qed

theorem roundtrip_delivery_witness:
  "(\<exists>ct. nacl_box reference hello nonce0 (pk bob) (sk alice) = Returns ct \<and>
         nacl_box_open reference ct nonce0 (pk alice) (sk bob) = Returns (Some hello)) \<and>
   (\<exists>frame. CryptoComm_send reference alice_comm hello 0 (snd (TrannyClient_new alice (pk bob))) =
              (None, Suc 0, NetConn_send frame (snd (TrannyClient_new alice (pk bob)))) \<and>
            wire reference (NetConn_send frame (snd (TrannyClient_new alice (pk bob)))) =
              wire reference (snd (TrannyClient_new alice (pk bob))) @ lp_encode reference frame \<and>
            socket_data reference (lp_encode reference frame) bob_conn =
              ([Message bob_comm (Buffer hello)], None, bob_conn))"
proof -
  have made_A: "alice = ref_keyPair alice_secret \<and> length alice_secret = 32"
    by (simp add: alice_def alice_secret_def)
  have made_B: "bob = ref_keyPair bob_secret \<and> length bob_secret = 32"
    by (simp add: bob_def bob_secret_def)
  have size: "length hello < 2 ^ 32"
    by (simp add: hello_def)
  have sender: "theirPk alice_comm = pk bob \<and> ourSk alice_comm = sk alice"
    by (simp add: alice_comm_def)
  have receiver: "theirPk bob_comm = pk alice \<and> ourSk bob_comm = sk bob"
    by (simp add: bob_comm_def)
  have listening: "data_listeners bob_conn = [(False, CommData bob_comm)]"
    by (simp add: bob_conn_eq)
  have decoder: "decoder_buffer bob_conn = [] \<and> \<not> decoder_stalled bob_conn"
    by (simp add: bob_conn_eq)
  show ?thesis
    by (rule roundtrip_delivery [OF made_A made_B nonce0_length size sender receiver listening
          decoder])
qed
section \<open>Frames that do not open\<close>

text \<open>
  What the code does when \<open>nacl.box.open\<close> returns \<open>null\<close>, the case of line 96 and of
  its comment: the handler emits no event and throws nothing, the NetConn is left as it
  was, and a sequence of frames that contains the failing frame is handled exactly as the
  sequence without it.
\<close>

lemma null_result_dropped:
  assumes envelope: "envelope_of p f = Inr (ct, nonce)"
    and fails: "nacl_box_open p ct nonce (theirPk c) (ourSk c) = Returns None"
    and listening: "data_listeners nc = [(False, CommData c)]"
  shows "onData p c f = Inr [] \<and>
         emit_data p f nc = ([], None, nc) \<and>
         emit_frames p (before @ f # after) nc = emit_frames p (before @ after) nc"
proof -
  have dropped: "onData p c f = Inr []"
    using envelope fails by (simp add: onData_def)
  then have quiet: "emit_data p f nc = ([], None, nc)"
    using listening by (simp add: emit_data_established)
  obtain evs x
    where pre: "emit_frames p before nc =
                  (evs, x, if x = None then nc else nc\<lparr>decoder_stalled := True\<rparr>)"
    using emit_frames_established [OF listening] by blast
  have "emit_frames p (f # after) nc = emit_frames p after nc"
    using quiet by (simp add: then_do_unit)
  then have "then_do (emit_frames p before nc) (emit_frames p (f # after)) =
             then_do (emit_frames p before nc) (emit_frames p after)"
    using pre by (cases x) (simp_all add: then_do_def)
  then have "emit_frames p (before @ f # after) nc = emit_frames p (before @ after) nc"
    by (simp only: emit_frames_append)
  with dropped quiet show ?thesis by simp
qed

lemma null_result_dropped_example:
  "emit_frames reference ([hello_frame] @ short_frame # [hello_frame]) bob_conn =
     ([Message bob_comm (Buffer hello), Message bob_comm (Buffer hello)], None, bob_conn)"
proof -
  have listening: "data_listeners bob_conn = [(False, CommData bob_comm)]"
    by (simp add: bob_conn_eq)
  have envelope: "envelope_of reference short_frame = Inr ([], nonce0)"
    by (simp add: short_frame_def ref_envelope_frame)
  have fails: "nacl_box_open reference [] nonce0 (theirPk bob_comm) (ourSk bob_comm) = Returns None"
    using ref_open_short by (simp add: bob_comm_def)
  have "emit_frames reference ([hello_frame] @ [hello_frame]) bob_conn =
     ([Message bob_comm (Buffer hello), Message bob_comm (Buffer hello)], None, bob_conn)"
    using listening ref_onData_hello by (simp add: emit_data_established then_do_def)
  then show ?thesis
    using null_result_dropped [OF envelope fails listening, of "[hello_frame]" "[hello_frame]"]
    by simp
qed

text \<open>
  On a nonce that is not 24 bytes long, or a key that is not 32 bytes long,
  \<open>nacl.box.open\<close> throws instead of returning \<open>null\<close>, and the handler, which catches
  nothing, ends with that exception.
\<close>

lemma onData_box_open_throws:
  assumes "envelope_of p f = Inr (ct, nonce)"
    and "nacl_box_open p ct nonce (theirPk c) (ourSk c) = Throws"
  shows "onData p c f = Inl NaclError"
  using assms by (simp add: onData_def)

text \<open>
  C2 fails in the code on the frame of the text \<open>{"data":"","nonce":""}\<close>, a well-formed
  envelope whose nonce was replaced by an empty one, arriving length prefixed on bob's
  connection before a frame alice sent. BoxOpen fails on it by throwing: the handler ends
  with the exception of \<open>nacl.box.open\<close>, which nothing catches, the decoder of the
  connection stops, and the run ends without the message of the frame that follows,
  which is delivered when the failing frame does not arrive.
\<close>

theorem bad_nonce_throws:
  "envelope_of reference no_nonce_frame = Inr ([], []) \<and>
   onData reference bob_comm no_nonce_frame = Inl NaclError \<and>
   socket_data reference (lp_encode reference no_nonce_frame) bob_conn =
     ([], Some NaclError, bob_conn\<lparr>decoder_stalled := True\<rparr>) \<and>
   run reference
       [SocketData (lp_encode reference no_nonce_frame),
        SocketData (lp_encode reference hello_frame)]
       \<lparr>net = bob_conn, draws = 0\<rparr> =
     ([], Some NaclError, \<lparr>net = bob_conn\<lparr>decoder_stalled := True\<rparr>, draws = 0\<rparr>) \<and>
   run reference [SocketData (lp_encode reference hello_frame)] \<lparr>net = bob_conn, draws = 0\<rparr> =
     ([Message bob_comm (Buffer hello)], None, \<lparr>net = bob_conn, draws = 0\<rparr>)"
proof -
  have thrown: "onData reference bob_comm no_nonce_frame = Inl NaclError"
    using ref_envelope_no_nonce ref_open_no_nonce by (rule onData_box_open_throws)
  have "socket_data reference (lp_encode reference no_nonce_frame) bob_conn =
     (case onData reference bob_comm no_nonce_frame of
        Inl e \<Rightarrow> ([], Some e, bob_conn\<lparr>decoder_stalled := True\<rparr>)
      | Inr evs \<Rightarrow> (evs, None, bob_conn))"
    by (rule bob_socket_data) (simp_all add: no_nonce_frame_def ref_utf8_encode_def)
  then have arrived: "socket_data reference (lp_encode reference no_nonce_frame) bob_conn =
                        ([], Some NaclError, bob_conn\<lparr>decoder_stalled := True\<rparr>)"
    using thrown by simp
  then have stopped: "run reference
       [SocketData (lp_encode reference no_nonce_frame),
        SocketData (lp_encode reference hello_frame)]
       \<lparr>net = bob_conn, draws = 0\<rparr> =
     ([], Some NaclError, \<lparr>net = bob_conn\<lparr>decoder_stalled := True\<rparr>, draws = 0\<rparr>)"
    by (simp add: lift_net_def then_do_def)
  have "run reference [SocketData (lp_encode reference hello_frame)]
          \<lparr>net = bob_conn, draws = 0\<rparr> =
        ([Message bob_comm (Buffer hello)], None, \<lparr>net = bob_conn, draws = 0\<rparr>)"
    by (simp add: ref_bob_receives lift_net_def then_do_def)
  with thrown arrived stopped show ?thesis
    by (simp only: ref_envelope_no_nonce simp_thms)
qed
section \<open>Malformed frames\<close>

text \<open>
  C3 fails on the frame of the two bytes of the text \<open>hi\<close>, arriving length prefixed
  on one of two connections of bob's process: \<open>JSON.parse\<close> rejects it, and the handler
  of the channel ends with the \<open>SyntaxError\<close> of \<open>JSON.parse\<close>, not a ProtocolError.
  Nothing catches it: the process ends, and the frame alice then sends on the other
  connection, which is delivered when the malformed frame does not arrive, is not.
\<close>

theorem malformed_frame_counterexample:
  "JSON_parse reference (utf8_decode reference hello) = None \<and>
   socket_data reference (lp_encode reference hello) bob_conn =
     ([], Some SyntaxError, bob_conn\<lparr>decoder_stalled := True\<rparr>) \<and>
   SyntaxError \<noteq> ProtocolError \<and>
   process_run reference
       [(0, SocketData (lp_encode reference hello)),
        (1, SocketData (lp_encode reference hello_frame))]
       [\<lparr>net = bob_conn, draws = 0\<rparr>, \<lparr>net = bob_conn, draws = 0\<rparr>] =
     ([], Some SyntaxError,
      [\<lparr>net = bob_conn\<lparr>decoder_stalled := True\<rparr>, draws = 0\<rparr>, \<lparr>net = bob_conn, draws = 0\<rparr>]) \<and>
   process_run reference
       [(1, SocketData (lp_encode reference hello_frame))]
       [\<lparr>net = bob_conn, draws = 0\<rparr>, \<lparr>net = bob_conn, draws = 0\<rparr>] =
     ([Message bob_comm (Buffer hello)], None,
      [\<lparr>net = bob_conn, draws = 0\<rparr>, \<lparr>net = bob_conn, draws = 0\<rparr>])"
proof -
  have "onData reference bob_comm hello = Inl SyntaxError"
    by (simp add: onData_def envelope_of_def ref_parse_hello_bytes)
  moreover have "socket_data reference (lp_encode reference hello) bob_conn =
     (case onData reference bob_comm hello of
        Inl e \<Rightarrow> ([], Some e, bob_conn\<lparr>decoder_stalled := True\<rparr>)
      | Inr evs \<Rightarrow> (evs, None, bob_conn))"
    by (rule bob_socket_data) (simp_all add: hello_def)
  ultimately have arrived: "socket_data reference (lp_encode reference hello) bob_conn =
                     ([], Some SyntaxError, bob_conn\<lparr>decoder_stalled := True\<rparr>)"
    by simp
  then have ended: "process_run reference
       [(0, SocketData (lp_encode reference hello)),
        (1, SocketData (lp_encode reference hello_frame))]
       [\<lparr>net = bob_conn, draws = 0\<rparr>, \<lparr>net = bob_conn, draws = 0\<rparr>] =
     ([], Some SyntaxError,
      [\<lparr>net = bob_conn\<lparr>decoder_stalled := True\<rparr>, draws = 0\<rparr>, \<lparr>net = bob_conn, draws = 0\<rparr>])"
    by (simp add: lift_net_def then_do_def)
  have "process_run reference
       [(1, SocketData (lp_encode reference hello_frame))]
       [\<lparr>net = bob_conn, draws = 0\<rparr>, \<lparr>net = bob_conn, draws = 0\<rparr>] =
     ([Message bob_comm (Buffer hello)], None,
      [\<lparr>net = bob_conn, draws = 0\<rparr>, \<lparr>net = bob_conn, draws = 0\<rparr>])"
    by (simp add: ref_bob_receives lift_net_def then_do_def)
  with arrived ended show ?thesis
    by (simp only: ref_parse_hello_bytes) simp
qed

text \<open>
  C3 as amended. Let a frame be one that \<open>JSON.parse\<close> rejects, or one that parses to a
  value whose \<open>data\<close> or \<open>nonce\<close> cannot be read or is absent, yielded by the decoder of
  a connection with its channel, after frames handled without an exception. The handler
  ends with an exception nothing catches, a \<open>SyntaxError\<close> or a \<open>TypeError\<close>, never a
  ProtocolError. No event is emitted for the frame, nor for the frames that follow it in
  the chunk; the decoder of the connection has stopped, so that no later chunk gives an
  event either; and the process that holds the connection ends with the exception,
  whatever was to happen next on any of its connections.
\<close>

theorem malformed_frame_throws:
  assumes listening: "data_listeners nc = [(False, CommData c)]"
    and malformed:
      "JSON_parse p (utf8_decode p f) = None \<or>
       (\<exists>v. JSON_parse p (utf8_decode p f) = Some v \<and>
            (get_prop v ''data'' = Inl TypeError \<or> get_prop v ''data'' = Inr JUndefined \<or>
             get_prop v ''nonce'' = Inl TypeError \<or> get_prop v ''nonce'' = Inr JUndefined))"
    and running: "\<not> decoder_stalled nc"
    and arrives: "lp_decode p (decoder_buffer nc) chunk = (before @ f # after, Inr rest)"
    and quiet: "thrown_of (emit_frames p before (nc\<lparr>decoder_buffer := rest\<rparr>)) = None"
    and held: "i < length cs \<and> cs ! i = \<lparr>net = nc, draws = k\<rparr>"
  shows "\<exists>e. (e = SyntaxError \<or> e = TypeError) \<and> e \<noteq> ProtocolError \<and>
             onData p c f = Inl e \<and>
             socket_data p chunk nc =
               (events_of (emit_frames p before (nc\<lparr>decoder_buffer := rest\<rparr>)), Some e,
                nc\<lparr>decoder_buffer := rest, decoder_stalled := True\<rparr>) \<and>
             events_of (socket_data p next_chunk
                 (nc\<lparr>decoder_buffer := rest, decoder_stalled := True\<rparr>)) = [] \<and>
             process_run p ((i, SocketData chunk) # later) cs =
               (events_of (emit_frames p before (nc\<lparr>decoder_buffer := rest\<rparr>)), Some e,
                cs[i := \<lparr>net = nc\<lparr>decoder_buffer := rest, decoder_stalled := True\<rparr>,
                          draws = k\<rparr>])"
proof -
  let ?nc = "nc\<lparr>decoder_buffer := rest\<rparr>"
  have "envelope_of p f = Inl SyntaxError \<or> envelope_of p f = Inl TypeError"
    using malformed
  proof
    assume "JSON_parse p (utf8_decode p f) = None"
    then show ?thesis by (simp add: envelope_of_def)
  next
    assume "\<exists>v. JSON_parse p (utf8_decode p f) = Some v \<and>
            (get_prop v ''data'' = Inl TypeError \<or> get_prop v ''data'' = Inr JUndefined \<or>
             get_prop v ''nonce'' = Inl TypeError \<or> get_prop v ''nonce'' = Inr JUndefined)"
    then obtain v where parsed: "JSON_parse p (utf8_decode p f) = Some v"
      and lacks: "get_prop v ''data'' = Inl TypeError \<or> get_prop v ''data'' = Inr JUndefined \<or>
                  get_prop v ''nonce'' = Inl TypeError \<or> get_prop v ''nonce'' = Inr JUndefined"
      by blast
    have "envelope_of p f = Inl TypeError"
      using parsed lacks
      by (auto simp: envelope_of_def split: sum.splits dest: get_prop_error Buffer_from_base64_error)
    then show ?thesis by simp
  qed
  then obtain e where e: "e = SyntaxError \<or> e = TypeError" and env: "envelope_of p f = Inl e"
    by blast
  have kind: "e \<noteq> ProtocolError"
    using e by auto
  have thrown: "onData p c f = Inl e"
    using env by (simp add: onData_def)
  have listening': "data_listeners ?nc = [(False, CommData c)]"
    using listening by simp
  obtain evs where pre: "emit_frames p before ?nc = (evs, None, ?nc)"
    using emit_frames_established [OF listening', of p before] quiet
    by (auto simp: thrown_of_def)
  have "emit_frames p (f # after) ?nc = ([], Some e, ?nc\<lparr>decoder_stalled := True\<rparr>)"
    using thrown listening' by (simp add: emit_data_established then_do_def)
  then have "emit_frames p (before @ f # after) ?nc = (evs, Some e, ?nc\<lparr>decoder_stalled := True\<rparr>)"
    by (simp add: emit_frames_append pre then_do_def)
  then have arrived: "socket_data p chunk nc =
                        (evs, Some e, nc\<lparr>decoder_buffer := rest, decoder_stalled := True\<rparr>)"
    using running arrives by (simp add: socket_data_def)
  have stopped: "events_of (socket_data p next_chunk
                   (nc\<lparr>decoder_buffer := rest, decoder_stalled := True\<rparr>)) = []"
    by (simp add: socket_data_stalled)
  have "step p (SocketData chunk) (cs ! i) =
          (evs, Some e, \<lparr>net = nc\<lparr>decoder_buffer := rest, decoder_stalled := True\<rparr>, draws = k\<rparr>)"
    using arrived held by (simp add: lift_net_def)
  then have "process_run p ((i, SocketData chunk) # later) cs =
               (evs, Some e,
                cs[i := \<lparr>net = nc\<lparr>decoder_buffer := rest, decoder_stalled := True\<rparr>, draws = k\<rparr>])"
    using held by (intro process_run_thrown) simp_all
  with e kind thrown arrived stopped pre show ?thesis
    by (simp add: events_of_def)
qed

theorem malformed_frame_throws_witness:
  "\<exists>e. (e = SyntaxError \<or> e = TypeError) \<and> e \<noteq> ProtocolError \<and>
       onData reference bob_comm (ref_utf8_encode ''{}'') = Inl e \<and>
       socket_data reference (lp_encode reference (ref_utf8_encode ''{}'')) bob_conn =
         ([], Some e, bob_conn\<lparr>decoder_stalled := True\<rparr>) \<and>
       events_of (socket_data reference (lp_encode reference hello_frame)
           (bob_conn\<lparr>decoder_stalled := True\<rparr>)) = [] \<and>
       process_run reference
           ((0, SocketData (lp_encode reference (ref_utf8_encode ''{}''))) #
            [(0, SocketData (lp_encode reference hello_frame))])
           [\<lparr>net = bob_conn, draws = 0\<rparr>] =
         ([], Some e, [\<lparr>net = bob_conn\<lparr>decoder_stalled := True\<rparr>, draws = 0\<rparr>])"
proof -
  have listening: "data_listeners bob_conn = [(False, CommData bob_comm)]"
    by (simp add: bob_conn_eq)
  have "JSON_parse reference (utf8_decode reference (ref_utf8_encode ''{}'')) = Some (JObj [])"
    by (simp add: reference_def ref_utf8_decode_encode ref_JSON_parse_def)
  then have malformed:
    "JSON_parse reference (utf8_decode reference (ref_utf8_encode ''{}'')) = None \<or>
     (\<exists>v. JSON_parse reference (utf8_decode reference (ref_utf8_encode ''{}'')) = Some v \<and>
          (get_prop v ''data'' = Inl TypeError \<or> get_prop v ''data'' = Inr JUndefined \<or>
           get_prop v ''nonce'' = Inl TypeError \<or> get_prop v ''nonce'' = Inr JUndefined))"
    by simp
  have running: "\<not> decoder_stalled bob_conn"
    by (simp add: bob_conn_eq)
  have "lp_decode reference (decoder_buffer bob_conn)
          (lp_encode reference (ref_utf8_encode ''{}'')) = ([ref_utf8_encode ''{}''], Inr [])"
    by (rule ref_frame_arrives) (simp_all add: ref_utf8_encode_def)
  then have arrives: "lp_decode reference (decoder_buffer bob_conn)
          (lp_encode reference (ref_utf8_encode ''{}'')) =
        ([] @ ref_utf8_encode ''{}'' # [], Inr [])"
    by simp
  have quiet: "thrown_of (emit_frames reference [] (bob_conn\<lparr>decoder_buffer := []\<rparr>)) = None"
    by (simp add: thrown_of_def)
  have held: "0 < length [\<lparr>net = bob_conn, draws = 0\<rparr>] \<and>
              [\<lparr>net = bob_conn, draws = 0\<rparr>] ! 0 = \<lparr>net = bob_conn, draws = 0\<rparr>"
    by simp
  show ?thesis
    using malformed_frame_throws [OF listening malformed running arrives quiet held,
        of "lp_encode reference hello_frame" "[(0, SocketData (lp_encode reference hello_frame))]"]
    by (simp add: bob_conn_buffer events_of_def)
qed
section \<open>Sending\<close>

text \<open>
  C4. \<open>send\<close> draws its nonce by one call of \<open>nacl.randomBytes\<close> for
  \<open>nacl.box.nonceLength\<close>, that is 24, bytes; when \<open>nacl.box\<close> returns the ciphertext of
  the message under this nonce, the remote public key and the local secret key, \<open>send\<close>
  throws nothing and writes to the encoder exactly one frame, after those written before:
  the text \<open>JSON.stringify\<close> gives for the object of the two members \<open>data\<close>, the base64 of
  the ciphertext, and \<open>nonce\<close>, the base64 of the nonce. The socket receives the length
  prefixed bytes of that frame, and the next \<open>send\<close> draws anew.
\<close>

theorem send_steps:
  assumes drawn: "nonce = nacl_randomBytes p k nonceLength"
    and boxed: "nacl_box p m nonce (theirPk c) (ourSk c) = Returns ct"
    and encoded: "frame = utf8_encode p (JSON_stringify p (JObj
                    [(''data'', JStr (base64_encode p ct)),
                     (''nonce'', JStr (base64_encode p nonce))]))"
  shows "nonceLength = 24 \<and>
         CryptoComm_send p c m k nc =
           (None, Suc k, nc\<lparr>encoder_written := encoder_written nc @ [frame]\<rparr>) \<and>
         wire p (nc\<lparr>encoder_written := encoder_written nc @ [frame]\<rparr>) =
           wire p nc @ lp_encode p frame \<and>
         step p (Send c m) \<lparr>net = nc, draws = k\<rparr> =
           ([], None, \<lparr>net = nc\<lparr>encoder_written := encoder_written nc @ [frame]\<rparr>,
                        draws = Suc k\<rparr>)"
proof -
  have sent: "CryptoComm_send p c m k nc =
                (None, Suc k, nc\<lparr>encoder_written := encoder_written nc @ [frame]\<rparr>)"
    using drawn boxed encoded by (simp add: CryptoComm_send_def Let_def NetConn_send_def)
  then have "step p (Send c m) \<lparr>net = nc, draws = k\<rparr> =
               ([], None, \<lparr>net = nc\<lparr>encoder_written := encoder_written nc @ [frame]\<rparr>,
                            draws = Suc k\<rparr>)"
    by simp
  with sent show ?thesis
    by (simp add: nonceLength_def wire_def)
qed

theorem send_steps_witness:
  "nonceLength = 24 \<and>
   CryptoComm_send reference alice_comm hello 0 NetConn_new =
     (None, Suc 0, NetConn_new\<lparr>encoder_written := encoder_written NetConn_new @ [hello_frame]\<rparr>) \<and>
   wire reference (NetConn_new\<lparr>encoder_written := encoder_written NetConn_new @ [hello_frame]\<rparr>) =
     wire reference NetConn_new @ lp_encode reference hello_frame \<and>
   step reference (Send alice_comm hello) \<lparr>net = NetConn_new, draws = 0\<rparr> =
     ([], None, \<lparr>net = NetConn_new\<lparr>encoder_written := encoder_written NetConn_new @ [hello_frame]\<rparr>,
                  draws = Suc 0\<rparr>)"
proof -
  have drawn: "nonce0 = nacl_randomBytes reference 0 nonceLength"
    by (simp only: ref_draw0)
  have boxed: "nacl_box reference hello nonce0 (theirPk alice_comm) (ourSk alice_comm) =
                 Returns hello_box"
    using ref_box_hello by (simp add: alice_comm_def)
  have encoded: "hello_frame = utf8_encode reference (JSON_stringify reference (JObj
                   [(''data'', JStr (base64_encode reference hello_box)),
                    (''nonce'', JStr (base64_encode reference nonce0))]))"
    by (simp add: reference_def hello_frame_def ref_frame_def)
  show ?thesis
    by (rule send_steps [OF drawn boxed encoded])
qed

section \<open>The handshake\<close>

text \<open>
  C5. The constructor of TrannyClient leaves exactly one frame written to the encoder,
  the local public key as it is, so that the socket receives its length prefixed bytes
  first; whatever happens on the connection afterwards, that frame stays the first one
  written. On the responder side the first frame of an accepted connection yields one
  \<open>client\<close> event, whose channel is bound to that frame as the remote public key and to the
  secret key of the server; the frames after it go to that channel, whose events are its
  messages only.
\<close>

theorem handshake_first_frame:
  "encoder_written (snd (TrannyClient_new kp their_pk)) = [pk kp] \<and>
   wire p (snd (TrannyClient_new kp their_pk)) = lp_encode p (pk kp) \<and>
   (\<exists>more. encoder_written (net (state_of
       (run p ins \<lparr>net = snd (TrannyClient_new kp their_pk), draws = k\<rparr>))) = pk kp # more) \<and>
   emit_frames p (f # fs) (TrannyServer_connection server_kp) =
     then_do
       ([Client \<lparr>comm_pk = f, theirPk = f, ourSk = sk server_kp\<rparr>], None,
        CryptoComm_listen \<lparr>comm_pk = f, theirPk = f, ourSk = sk server_kp\<rparr> NetConn_new)
       (emit_frames p fs) \<and>
   (\<forall>e\<in>set (events_of (emit_frames p fs
        (CryptoComm_listen \<lparr>comm_pk = f, theirPk = f, ourSk = sk server_kp\<rparr> NetConn_new))).
      \<exists>m. e = Message \<lparr>comm_pk = f, theirPk = f, ourSk = sk server_kp\<rparr> m)"
proof -
  let ?nc = "snd (TrannyClient_new kp their_pk)"
  let ?c = "\<lparr>comm_pk = f, theirPk = f, ourSk = sk server_kp\<rparr>"
  have first: "encoder_written ?nc = [pk kp]"
    by (simp add: TrannyClient_new_def Let_def CryptoComm_new_def CryptoComm_listen_def
        NetConn_send_def NetConn_new_def)
  then have on_wire: "wire p ?nc = lp_encode p (pk kp)"
    by (simp add: wire_def)
  have stays: "\<exists>more. encoder_written (net (state_of
       (run p ins \<lparr>net = ?nc, draws = k\<rparr>))) = pk kp # more"
    using run_written [of p ins "\<lparr>net = ?nc, draws = k\<rparr>"] first by simp
  have key: "emit_frames p (f # fs) (TrannyServer_connection server_kp) =
     then_do ([Client ?c], None, CryptoComm_listen ?c NetConn_new) (emit_frames p fs)"
    by (simp add: emit_data_first)
  have "data_listeners (CryptoComm_listen ?c NetConn_new) = [(False, CommData ?c)]"
    by (simp add: CryptoComm_listen_def NetConn_new_def)
  then have later: "\<forall>e\<in>set (events_of (emit_frames p fs (CryptoComm_listen ?c NetConn_new))).
      \<exists>m. e = Message ?c m"
    by (rule emit_frames_messages)
  from first on_wire stays key later show ?thesis by blast
qed

theorem handshake_first_frame_witness:
  "encoder_written (snd (TrannyClient_new alice (pk bob))) = [pk alice] \<and>
   emit_frames reference [pk alice, hello_frame] (TrannyServer_connection bob) =
     ([Client bob_comm, Message bob_comm (Buffer hello)], None, bob_conn)"
proof -
  have c: "\<lparr>comm_pk = pk alice, theirPk = pk alice, ourSk = sk bob\<rparr> = bob_comm"
    by (simp add: bob_comm_def)
  have nc: "CryptoComm_listen bob_comm NetConn_new = bob_conn"
    by (simp add: bob_conn_eq CryptoComm_listen_def NetConn_new_def)
  have "emit_frames reference [hello_frame] bob_conn =
               ([Message bob_comm (Buffer hello)], None, bob_conn)"
    using ref_onData_hello by (simp add: emit_data_established bob_conn_eq then_do_def)
  then show ?thesis
    using handshake_first_frame [of alice "pk bob" reference "[]" 0 "pk alice" "[hello_frame]" bob]
    by (simp add: c nc then_do_def)
qed

section \<open>The handshake frame is not checked\<close>

text \<open>
  C6 fails on a first frame of one byte: the server emits a channel bound to that byte as
  the remote public key, nothing is thrown, and the socket is not destroyed.
\<close>

theorem handshake_length_counterexample:
  "length [1 :: byte] \<noteq> 32 \<and>
   emit_data reference [1] (TrannyServer_connection bob) =
     ([Client \<lparr>comm_pk = [1], theirPk = [1], ourSk = sk bob\<rparr>], None,
      CryptoComm_listen \<lparr>comm_pk = [1], theirPk = [1], ourSk = sk bob\<rparr> NetConn_new) \<and>
   \<not> socket_destroyed
       (CryptoComm_listen \<lparr>comm_pk = [1], theirPk = [1], ourSk = sk bob\<rparr> NetConn_new)"
  by (simp add: emit_data_first CryptoComm_listen_def NetConn_new_def)

text \<open>
  C6 as amended. On the responder side the first frame of a newly accepted connection,
  whatever its length, is taken as the remote public key: no length is checked, nothing
  is thrown, the socket is not destroyed, and one channel bound to the frame is emitted.
\<close>

theorem handshake_any_length:
  "emit_data p f (TrannyServer_connection kp) =
     ([Client \<lparr>comm_pk = f, theirPk = f, ourSk = sk kp\<rparr>], None,
      CryptoComm_listen \<lparr>comm_pk = f, theirPk = f, ourSk = sk kp\<rparr> NetConn_new) \<and>
   \<not> socket_destroyed
       (CryptoComm_listen \<lparr>comm_pk = f, theirPk = f, ourSk = sk kp\<rparr> NetConn_new)"
  by (simp add: emit_data_first CryptoComm_listen_def NetConn_new_def)

section \<open>The length a frame claims\<close>

text \<open>
  C7 fails on a chunk whose length prefix claims \<open>2 ^ 50\<close> bytes, arriving on one of two
  connections of bob's process. No maximum is configured and nothing rejects the claim as
  a FramingError: the decoder fails allocating what is claimed, with a \<open>RangeError\<close> that
  nothing catches. It is not that connection that is closed: the process ends, and the
  frame alice then sends on the other connection, which is delivered when the chunk does
  not arrive, is not.
\<close>

theorem frame_limit_counterexample:
  "lp_decode reference (decoder_buffer bob_conn) huge_chunk = ([], Inl CannotAllocate) \<and>
   socket_data reference huge_chunk bob_conn =
     ([], Some RangeError, bob_conn\<lparr>decoder_stalled := True\<rparr>) \<and>
   RangeError \<noteq> FramingError \<and>
   process_run reference
       [(0, SocketData huge_chunk), (1, SocketData (lp_encode reference hello_frame))]
       [\<lparr>net = bob_conn, draws = 0\<rparr>, \<lparr>net = bob_conn, draws = 0\<rparr>] =
     ([], Some RangeError,
      [\<lparr>net = bob_conn\<lparr>decoder_stalled := True\<rparr>, draws = 0\<rparr>, \<lparr>net = bob_conn, draws = 0\<rparr>]) \<and>
   process_run reference
       [(1, SocketData (lp_encode reference hello_frame))]
       [\<lparr>net = bob_conn, draws = 0\<rparr>, \<lparr>net = bob_conn, draws = 0\<rparr>] =
     ([Message bob_comm (Buffer hello)], None,
      [\<lparr>net = bob_conn, draws = 0\<rparr>, \<lparr>net = bob_conn, draws = 0\<rparr>])"
proof -
  have decoded: "lp_decode reference (decoder_buffer bob_conn) huge_chunk =
                   ([], Inl CannotAllocate)"
    using ref_decode_huge by (simp add: bob_conn_eq)
  moreover have "\<not> decoder_stalled bob_conn"
    by (simp add: bob_conn_eq)
  ultimately have arrived: "socket_data reference huge_chunk bob_conn =
                     ([], Some RangeError, bob_conn\<lparr>decoder_stalled := True\<rparr>)"
    by (simp add: socket_data_def then_do_def)
  then have ended: "process_run reference
       [(0, SocketData huge_chunk), (1, SocketData (lp_encode reference hello_frame))]
       [\<lparr>net = bob_conn, draws = 0\<rparr>, \<lparr>net = bob_conn, draws = 0\<rparr>] =
     ([], Some RangeError,
      [\<lparr>net = bob_conn\<lparr>decoder_stalled := True\<rparr>, draws = 0\<rparr>, \<lparr>net = bob_conn, draws = 0\<rparr>])"
    by (simp add: lift_net_def then_do_def)
  have "process_run reference
       [(1, SocketData (lp_encode reference hello_frame))]
       [\<lparr>net = bob_conn, draws = 0\<rparr>, \<lparr>net = bob_conn, draws = 0\<rparr>] =
     ([Message bob_comm (Buffer hello)], None,
      [\<lparr>net = bob_conn, draws = 0\<rparr>, \<lparr>net = bob_conn, draws = 0\<rparr>])"
    by (simp add: ref_bob_receives lift_net_def then_do_def)
  with decoded arrived ended show ?thesis
    by simp
qed

text \<open>
  C7 as amended. The NetConn configures no maximum frame size and raises no
  FramingError: every frame its decoder yields is emitted as \<open>data\<close>, whatever its length.
  The only limits are those of the decoder itself, a length prefix longer than it reads
  and a claimed length it cannot allocate. When the decoder fails on one, after the
  frames it has yielded before, its failure is an exception nothing catches, which is not
  a FramingError: the decoder stops, and it is the process that ends with the exception,
  whatever was to happen next on any of its connections.
\<close>

theorem no_frame_size_limit:
  assumes running: "\<not> decoder_stalled nc"
    and decoded: "lp_decode p (decoder_buffer nc) chunk = (frames, r)"
    and held: "i < length cs \<and> cs ! i = \<lparr>net = nc, draws = k\<rparr>"
  shows "(\<forall>rest. r = Inr rest \<longrightarrow>
            socket_data p chunk nc = emit_frames p frames (nc\<lparr>decoder_buffer := rest\<rparr>)) \<and>
         (\<forall>failure. r = Inl failure \<longrightarrow>
            events_of (socket_data p chunk nc) = events_of (emit_frames p frames nc) \<and>
            (thrown_of (emit_frames p frames nc) = None \<longrightarrow>
               thrown_of (socket_data p chunk nc) = Some (failure_error failure)) \<and>
            thrown_of (socket_data p chunk nc) \<noteq> None \<and>
            decoder_stalled (state_of (socket_data p chunk nc)) \<and>
            process_run p ((i, SocketData chunk) # later) cs =
              process_step p (i, SocketData chunk) cs) \<and>
         thrown_of (socket_data p chunk nc) \<noteq> Some FramingError"
proof -
  have yields: "socket_data p chunk nc = emit_frames p frames (nc\<lparr>decoder_buffer := rest\<rparr>)"
    if "r = Inr rest" for rest
    using running decoded that by (simp add: socket_data_def)
  have fails: "events_of (socket_data p chunk nc) = events_of (emit_frames p frames nc) \<and>
            (thrown_of (emit_frames p frames nc) = None \<longrightarrow>
               thrown_of (socket_data p chunk nc) = Some (failure_error failure)) \<and>
            thrown_of (socket_data p chunk nc) \<noteq> None \<and>
            decoder_stalled (state_of (socket_data p chunk nc)) \<and>
            process_run p ((i, SocketData chunk) # later) cs =
              process_step p (i, SocketData chunk) cs"
    if failure: "r = Inl failure" for failure
  proof -
    obtain evs x nc1 where r1: "emit_frames p frames nc = (evs, x, nc1)"
      by (cases "emit_frames p frames nc") auto
    have here: "socket_data p chunk nc =
                  then_do (evs, x, nc1)
                    (\<lambda>nc'. ([], Some (failure_error failure), nc'\<lparr>decoder_stalled := True\<rparr>))"
      using running decoded failure r1 by (simp add: socket_data_def)
    obtain e nc2 where thrown: "socket_data p chunk nc = (evs, Some e, nc2)"
      and stalled: "decoder_stalled nc2"
      and which: "x = None \<longrightarrow> e = failure_error failure"
    proof (cases x)
      case None
      with here have "socket_data p chunk nc =
                        (evs, Some (failure_error failure), nc1\<lparr>decoder_stalled := True\<rparr>)"
        by (simp add: then_do_def)
      with None that show ?thesis by simp
    next
      case (Some e1)
      with here have "socket_data p chunk nc = (evs, Some e1, nc1)"
        by (simp add: then_do_def)
      moreover have "decoder_stalled nc1"
        using r1 Some by (simp add: emit_frames_thrown)
      ultimately show ?thesis
        using Some that by simp
    qed
    have "step p (SocketData chunk) (cs ! i) = (evs, Some e, (cs ! i)\<lparr>net := nc2\<rparr>)"
      using thrown held by (simp add: lift_net_def)
    then have "process_run p ((i, SocketData chunk) # later) cs =
                 process_step p (i, SocketData chunk) cs"
      using held by (simp add: then_do_def)
    with thrown stalled which r1 show ?thesis
      by (simp add: events_of_def thrown_of_def state_of_def)
  qed
  obtain evs x nc' where r: "socket_data p chunk nc = (evs, x, nc')"
    by (cases "socket_data p chunk nc") auto
  from socket_data_keeps [OF r] r
  have "thrown_of (socket_data p chunk nc) \<noteq> Some FramingError"
    by (simp add: thrown_of_def)
  with yields fails show ?thesis
    by blast
qed

theorem no_frame_size_limit_witness:
  "events_of (socket_data reference long_prefix_chunk bob_conn) = [] \<and>
   thrown_of (socket_data reference long_prefix_chunk bob_conn) = Some PrefixError \<and>
   decoder_stalled (state_of (socket_data reference long_prefix_chunk bob_conn)) \<and>
   process_run reference
       ((0, SocketData long_prefix_chunk) # [(0, SocketData (lp_encode reference hello_frame))])
       [\<lparr>net = bob_conn, draws = 0\<rparr>] =
     process_step reference (0, SocketData long_prefix_chunk) [\<lparr>net = bob_conn, draws = 0\<rparr>]"
proof -
  have running: "\<not> decoder_stalled bob_conn"
    by (simp add: bob_conn_eq)
  have decoded: "lp_decode reference (decoder_buffer bob_conn) long_prefix_chunk =
                   ([], Inl PrefixTooLong)"
    using ref_decode_long_prefix by (simp add: bob_conn_eq)
  have held: "0 < length [\<lparr>net = bob_conn, draws = 0\<rparr>] \<and>
              [\<lparr>net = bob_conn, draws = 0\<rparr>] ! 0 = \<lparr>net = bob_conn, draws = 0\<rparr>"
    by simp
  have "events_of (emit_frames reference [] bob_conn) = [] \<and>
        thrown_of (emit_frames reference [] bob_conn) = None"
    by (simp add: events_of_def thrown_of_def)
  with no_frame_size_limit [OF running decoded held,
      of "[(0, SocketData (lp_encode reference hello_frame))]"]
  show ?thesis
    by simp
qed
section \<open>Destroy\<close>

text \<open>
  C8 fails on bob's connection when \<open>destroy\<close> is called, twice, and the socket then
  raises its \<open>close\<close>, as a destroyed socket does: the two calls emit nothing, and the
  \<open>disconnected\<close> event of the channel is delivered after them.
\<close>

theorem destroy_counterexample:
  "events_of (run reference [Destroy, Destroy] \<lparr>net = bob_conn, draws = 0\<rparr>) = [] \<and>
   events_of (run reference [Destroy, Destroy, SocketClose] \<lparr>net = bob_conn, draws = 0\<rparr>) =
     [Disconnected bob_comm]"
  by (simp add: events_of_def then_do_def lift_net_def socket_close_def emit_disconnected_def
      CryptoComm_destroy_def NetConn_destroy_def bob_conn_eq)

text \<open>
  C8 as amended. \<open>destroy\<close> called a second time throws nothing and changes nothing: two
  calls leave the connection as one does, and neither emits an event. \<open>destroy\<close> removes
  no listener, so what the socket raises afterwards is handled as it would have been
  without the call: the same events, the same exceptions.
\<close>

theorem destroy_twice:
  "NetConn_destroy (NetConn_destroy nc) = NetConn_destroy nc \<and>
   CryptoComm_destroy (CryptoComm_destroy nc) = CryptoComm_destroy nc \<and>
   step p Destroy s = ([], None, s\<lparr>net := CryptoComm_destroy (net s)\<rparr>) \<and>
   run p (Destroy # Destroy # ins) s = run p (Destroy # ins) s \<and>
   events_of (run p (Destroy # ins) s) = events_of (run p ins s) \<and>
   thrown_of (run p (Destroy # ins) s) = thrown_of (run p ins s)"
proof -
  have once: "NetConn_destroy (NetConn_destroy nc) = NetConn_destroy nc" for nc
    by (simp add: NetConn_destroy_def)
  then have comm: "CryptoComm_destroy (CryptoComm_destroy nc) = CryptoComm_destroy nc"
    by (simp add: CryptoComm_destroy_def)
  have quiet: "step p Destroy s = ([], None, s\<lparr>net := CryptoComm_destroy (net s)\<rparr>)"
    by simp
  have twice: "run p (Destroy # Destroy # ins) s = run p (Destroy # ins) s"
    by (simp add: then_do_unit CryptoComm_destroy_def NetConn_destroy_def)
  have "run p (Destroy # ins) s = run p ins (with_socket True s)"
    by (simp add: then_do_unit with_socket_def CryptoComm_destroy_def NetConn_destroy_def)
  moreover obtain b' where "run p ins (with_socket True s) =
     (events_of (run p ins s), thrown_of (run p ins s), with_socket b' (state_of (run p ins s)))"
    using run_socket [of p ins True s] by blast
  ultimately have same: "events_of (run p (Destroy # ins) s) = events_of (run p ins s) \<and>
                         thrown_of (run p (Destroy # ins) s) = thrown_of (run p ins s)"
    by (simp add: events_of_def thrown_of_def)
  from once comm quiet twice same show ?thesis by blast
qed

section \<open>The closing signal\<close>



section \<open>The two versions of the receive handler\<close>

text \<open>
  C10 fails on bob's channel, on the frame whose ciphertext is too short to be a box, on
  which \<open>nacl.box.open\<close> returns \<open>null\<close>: the version of lines 85 to 102 emits nothing,
  the version of lines 251 to 264 emits one \<open>message\<close> event that carries \<open>null\<close>. It
  fails on the frame alice sent as well: the one emits her message in a \<open>Buffer\<close>, the
  other the \<open>Uint8Array\<close> that \<open>nacl.box.open\<close> returned.
\<close>

theorem versions_counterexample:
  "onData reference bob_comm short_frame = Inr [] \<and>
   onData_v2 reference bob_comm short_frame = Inr [Message bob_comm Null] \<and>
   onData reference bob_comm hello_frame = Inr [Message bob_comm (Buffer hello)] \<and>
   onData_v2 reference bob_comm hello_frame = Inr [Message bob_comm (Uint8Array hello)]"
proof -
  have "nacl_box_open reference [] nonce0 (theirPk bob_comm) (ourSk bob_comm) = Returns None"
    using ref_open_short by (simp add: bob_comm_def)
  moreover
  have "nacl_box_open reference hello_box nonce0 (theirPk bob_comm) (ourSk bob_comm) =
          Returns (Some hello)"
    using ref_open_hello by (simp add: bob_comm_def)
  ultimately show ?thesis
    by (simp add: onData_def onData_v2_def short_frame_def hello_frame_def ref_envelope_frame)
qed

text \<open>
  C10 as amended. For every incoming frame and every fixed pair of a remote public key and
  a local secret key, the two versions end alike exactly when an exception leaves the
  handler: the same exception then leaves both. Otherwise the version of lines 251 to 264
  emits one \<open>message\<close> event, and the version of lines 85 to 102 emits what its guard and
  its copy make of it: nothing when the event carries \<open>null\<close>, that is when BoxOpen has
  failed, and the same bytes in a \<open>Buffer\<close> when it carries the \<open>Uint8Array\<close> of the
  plaintext.
\<close>

theorem versions_compared:
  "(onData p c f = onData_v2 p c f \<longleftrightarrow> (\<exists>e. onData_v2 p c f = Inl e)) \<and>
   (\<forall>e. onData p c f = Inl e \<longleftrightarrow> onData_v2 p c f = Inl e) \<and>
   (\<forall>evs. onData_v2 p c f = Inr evs \<longrightarrow>
      (\<exists>x. evs = [Message c x] \<and> (\<forall>m. x \<noteq> Buffer m) \<and>
           onData p c f = Inr (guarded (Message c x))))"
  by (auto simp: onData_def onData_v2_def split: sum.splits call.splits option.splits)

theorem versions_compared_witness:
  "onData reference bob_comm hello_frame \<noteq> onData_v2 reference bob_comm hello_frame \<and>
   (\<exists>x. onData_v2 reference bob_comm hello_frame = Inr [Message bob_comm x] \<and>
        onData reference bob_comm hello_frame = Inr (guarded (Message bob_comm x)))"
proof -
  have "nacl_box_open reference hello_box nonce0 (theirPk bob_comm) (ourSk bob_comm) =
          Returns (Some hello)"
    using ref_open_hello by (simp add: bob_comm_def)
  then have "onData_v2 reference bob_comm hello_frame = Inr [Message bob_comm (Uint8Array hello)]"
    by (simp add: onData_v2_def hello_frame_def ref_envelope_frame)
  with versions_compared [of reference bob_comm hello_frame] show ?thesis
    by auto
qed

end
